theory Spec2Isabelle
  imports Complex_Main "HOL-Library.AList" "HOL-Library.Sublist"
begin

section \<open>Values exchanged with the peers\<close>

text \<open>
  The server of \<^verbatim>\<open>src/server.js\<close> receives text frames, hands them to
  \<^verbatim>\<open>JSON.parse\<close> and looks at a few properties of the result. A parsed value is one
  of the six JSON shapes; an object keeps its properties in order. Numbers are opaque to
  the server (it never computes with a number of a payload), they are carried as reals.
\<close>

datatype json =
    JNull
  | JBool bool
  | JNum real
  | JStr string
  | JArr "json list"
  | JObj "(string \<times> json) list"

type_synonym jobject = "(string \<times> json) list"

datatype js_error = SyntaxError | TypeError

text \<open>
  What the environment hands to the \<^verbatim>\<open>message\<close> handler: a frame on which
  \<^verbatim>\<open>JSON.parse\<close> throws, or the value it returns.
\<close>

datatype payload = Unparsable | Parsed json

text \<open>
  Reading a property \<^verbatim>\<open>v.k\<close> for the keys the server reads (\<^verbatim>\<open>type\<close>,
  \<^verbatim>\<open>data\<close>, \<^verbatim>\<open>Name\<close>, \<^verbatim>\<open>res\<close>): on \<^verbatim>\<open>null\<close> it throws a TypeError, on an
  object it is the own property or \<^verbatim>\<open>undefined\<close> (here \<open>None\<close>), and every other
  value has no property of these names.
\<close>

definition get_prop :: "json \<Rightarrow> string \<Rightarrow> js_error + json option" where
  "get_prop v k =
     (case v of
        JNull \<Rightarrow> Inl TypeError
      | JObj kvs \<Rightarrow> Inr (map_of kvs k)
      | _ \<Rightarrow> Inr None)"

text \<open>
  A template literal \<^verbatim>\<open>`${v}`\<close> converts \<open>v\<close> to a string. For a value that came out
  of \<^verbatim>\<open>JSON.parse\<close> the conversion throws exactly when it meets an object that has an
  own property \<^verbatim>\<open>toString\<close> (never callable in JSON); an array is joined, so the
  conversion descends into its elements.
\<close>

fun coerce_throws :: "json \<Rightarrow> bool" where
  "coerce_throws (JObj kvs) = (''toString'' \<in> set (map fst kvs))"
| "coerce_throws (JArr xs) = list_ex coerce_throws xs"
| "coerce_throws _ = False"

definition template_throws :: "json option \<Rightarrow> bool" where
  "template_throws v = (case v of None \<Rightarrow> False | Some x \<Rightarrow> coerce_throws x)"

text \<open>Decimal index keys, for the own properties of an array or of a string.\<close>

fun dec :: "nat \<Rightarrow> string" where
  "dec n = (if n < 10 then [''0123456789'' ! n]
            else dec (n div 10) @ [''0123456789'' ! (n mod 10)])"

text \<open>
  The own enumerable properties that the spread \<^verbatim>\<open>{ ...data.data }\<close> copies:
  none for \<^verbatim>\<open>undefined\<close>, \<^verbatim>\<open>null\<close>, a boolean or a number; the indexed
  characters of a string; the indexed elements of an array; the properties of an object.
\<close>

definition own_props :: "json option \<Rightarrow> jobject" where
  "own_props v =
     (case v of
        None \<Rightarrow> []
      | Some (JStr s) \<Rightarrow> zip (map dec [0..<length s]) (map (\<lambda>c. JStr [c]) s)
      | Some (JArr xs) \<Rightarrow> zip (map dec [0..<length xs]) xs
      | Some (JObj kvs) \<Rightarrow> kvs
      | Some _ \<Rightarrow> [])"

text \<open>
  \<^verbatim>\<open>const action = { ...data.data, clientId, timestamp: Date.now() }\<close>:
  the properties are written in order into a fresh object, a later write to a key that
  is already there replaces its value and keeps its place.
\<close>

definition mk_action :: "json option \<Rightarrow> string \<Rightarrow> int \<Rightarrow> jobject" where
  "mk_action d cid now =
     AList.update ''timestamp'' (JNum (of_int now))
       (AList.update ''clientId'' (JStr cid)
          (fold (\<lambda>(k, v). AList.update k v) (own_props d) []))"

section \<open>The origin check of the handshake\<close>

text \<open>
  \<^verbatim>\<open>verifyClient(info, done)\<close> answers through the callback \<open>done\<close>. The model
  returns the calls of \<open>done\<close> in the order the function makes them.
\<close>

datatype verdict = Accept | Reject nat string

definition allowedOrigins :: "string list" where
  "allowedOrigins =
     [''https://whiteboard-frontend-ikhrz0fz2-creatorramas-projects.vercel.app'',
      ''http://127.0.0.1:5173'']"

text \<open>\<^verbatim>\<open>!info.origin\<close> holds for an absent origin and for the empty string.\<close>

definition falsy :: "string option \<Rightarrow> bool" where
  "falsy origin = (case origin of None \<Rightarrow> True | Some x \<Rightarrow> x = [])"

definition includes_str :: "string list \<Rightarrow> string option \<Rightarrow> bool" where
  "includes_str xs origin = (case origin of None \<Rightarrow> False | Some x \<Rightarrow> x \<in> set xs)"

definition verifyClient :: "string option \<Rightarrow> verdict list" where
  "verifyClient origin =
     (if falsy origin \<or> includes_str allowedOrigins origin
      then [Accept]
      else [Reject 401 ''Unauthorized origin''])
     @ [Accept]"

section \<open>Server state\<close>

type_synonym ws = nat
type_synonym time = int

datatype ready_state = CONNECTING | OPEN | CLOSING | CLOSED

text \<open>
  A socket object of the library together with what the \<^verbatim>\<open>connection\<close> handler
  closes over: the generated \<^verbatim>\<open>clientId\<close> and the handle of the heartbeat interval.
\<close>

record socket =
  readyState :: ready_state
  clientId :: string
  pingInterval :: bool

text \<open>The value stored in the \<^verbatim>\<open>clients\<close> map.\<close>

record client_info =
  id_info :: string
  ip :: string
  connectedAt :: time
  lastActivity :: time
  lastPong :: "time option"

datatype server_msg =
    INIT "jobject list"
  | SYSTEM string
  | DRAW jobject
  | CHAT "json option" "json option"
  | PONG time

text \<open>What the process does to the outside, in order.\<close>

datatype effect =
    Send ws server_msg
  | Ping ws
  | Terminate ws
  | CloseWs ws nat string
  | ServerClose
  | SetTimeout nat

text \<open>The calls of \<^verbatim>\<open>console.error\<close>.\<close>

datatype err =
    ErrPing string
  | ErrProcessing string js_error
  | ErrSocket string
  | ForcedShutdown

record state =
  socks :: "(ws \<times> socket) list"
  next_ws :: ws
  wss_clients :: "ws list"
  clients :: "(ws \<times> client_info) list"
  drawingHistory :: "jobject list"
  trace :: "effect list"
  errors :: "err list"
  closing :: bool
  force_timer :: bool
  exit_code :: "int option"

definition MAX_HISTORY :: nat where
  "MAX_HISTORY = 100"

definition init_state :: state where
  "init_state =
     \<lparr>socks = [], next_ws = 0, wss_clients = [], clients = [], drawingHistory = [],
      trace = [], errors = [], closing = False, force_timer = False, exit_code = None\<rparr>"

section \<open>The library's socket operations\<close>

text \<open>
  The \<^verbatim>\<open>ws\<close> library is not part of the repository. Its operations are modelled by
  their documented effect: a frame is transmitted only on a socket whose state is
  \<^verbatim>\<open>OPEN\<close>; \<^verbatim>\<open>terminate\<close> destroys the connection and leaves the socket
  \<^verbatim>\<open>CLOSING\<close> unless it is already \<^verbatim>\<open>CLOSED\<close>; \<^verbatim>\<open>close\<close> starts the closing
  handshake of an open socket. A send is taken not to throw.
\<close>

definition readyState_of :: "state \<Rightarrow> ws \<Rightarrow> ready_state" where
  "readyState_of s w =
     (case map_of (socks s) w of None \<Rightarrow> CLOSED | Some k \<Rightarrow> readyState k)"

definition ws_send :: "ws \<Rightarrow> server_msg \<Rightarrow> state \<Rightarrow> state" where
  "ws_send w m s =
     (if readyState_of s w = OPEN then s\<lparr>trace := trace s @ [Send w m]\<rparr> else s)"

definition set_readyState :: "ws \<Rightarrow> ready_state \<Rightarrow> state \<Rightarrow> state" where
  "set_readyState w r s =
     s\<lparr>socks := AList.map_entry w (\<lambda>k. k\<lparr>readyState := r\<rparr>) (socks s)\<rparr>"

definition terminate :: "ws \<Rightarrow> state \<Rightarrow> state" where
  "terminate w s =
     (if readyState_of s w = CLOSED then s
      else (set_readyState w CLOSING s)\<lparr>trace := trace s @ [Terminate w]\<rparr>)"

definition ws_close :: "ws \<Rightarrow> nat \<Rightarrow> string \<Rightarrow> state \<Rightarrow> state" where
  "ws_close w code reason s =
     (if readyState_of s w = OPEN
      then (set_readyState w CLOSING s)\<lparr>trace := trace s @ [CloseWs w code reason]\<rparr>
      else s)"

definition clearInterval :: "ws \<Rightarrow> state \<Rightarrow> state" where
  "clearInterval w s =
     s\<lparr>socks := AList.map_entry w (\<lambda>k. k\<lparr>pingInterval := False\<rparr>) (socks s)\<rparr>"

definition console_error :: "err \<Rightarrow> state \<Rightarrow> state" where
  "console_error e s = s\<lparr>errors := errors s @ [e]\<rparr>"

section \<open>The handlers\<close>

text \<open>\<^verbatim>\<open>broadcastMessage(message, excludeClient = null)\<close>.\<close>

definition broadcastMessage :: "server_msg \<Rightarrow> ws option \<Rightarrow> state \<Rightarrow> state" where
  "broadcastMessage message excludeClient s =
     fold (\<lambda>client s'.
             if Some client \<noteq> excludeClient \<and> readyState_of s' client = OPEN
             then ws_send client message s' else s')
          (wss_clients s) s"

text \<open>
  \<^verbatim>\<open>drawingHistory.push(action)\<close> followed by the \<^verbatim>\<open>shift()\<close> that is guarded by
  \<^verbatim>\<open>drawingHistory.length > MAX_HISTORY\<close>.
\<close>

definition push_history :: "jobject list \<Rightarrow> jobject \<Rightarrow> jobject list" where
  "push_history h action =
     (let h' = h @ [action] in if length h' > MAX_HISTORY then tl h' else h')"

text \<open>
  The \<^verbatim>\<open>connection\<close> event. The library has created the socket, open, and added it to
  \<^verbatim>\<open>wss.clients\<close>; the handle of a new socket is \<open>next_ws\<close>. The identifier
  (\<^verbatim>\<open>uuidv4()\<close>), the remote address and the clock are inputs.
\<close>

definition on_connection :: "string \<Rightarrow> string \<Rightarrow> time \<Rightarrow> state \<Rightarrow> state" where
  "on_connection uuid addr now s =
     (let w = next_ws s;
          s1 = s\<lparr>socks := AList.update w
                    \<lparr>readyState = OPEN, clientId = uuid, pingInterval = True\<rparr> (socks s),
                 next_ws := Suc w,
                 wss_clients := wss_clients s @ [w]\<rparr>;
          s2 = s1\<lparr>clients := AList.update w
                    \<lparr>id_info = uuid, ip = addr, connectedAt = now, lastActivity = now,
                     lastPong = None\<rparr> (clients s1)\<rparr>;
          s3 = ws_send w (INIT (drawingHistory s2)) s2;
          s4 = ws_send w (SYSTEM ''Connected to whiteboard server'') s3
      in broadcastMessage (SYSTEM ''A new user has joined the whiteboard'') (Some w) s4)"

text \<open>The first statements of the \<^verbatim>\<open>message\<close> handler: the activity stamp.\<close>

definition touch :: "ws \<Rightarrow> time \<Rightarrow> state \<Rightarrow> state" where
  "touch w now s =
     s\<lparr>clients := AList.map_entry w (\<lambda>i. i\<lparr>lastActivity := now\<rparr>) (clients s)\<rparr>"

text \<open>
  The rest of the \<^verbatim>\<open>try\<close> block, from the parsed value on: \<open>Inl\<close> is a throw. Every
  throw happens before the block has changed anything.
\<close>

definition dispatch :: "socket \<Rightarrow> ws \<Rightarrow> json \<Rightarrow> time \<Rightarrow> state \<Rightarrow> js_error + state" where
  "dispatch k w data now s =
     (case get_prop data ''type'' of
        Inl e \<Rightarrow> Inl e
      | Inr ty \<Rightarrow>
          if template_throws ty then Inl TypeError
          else if ty = Some (JStr ''DRAW'') then
            (case get_prop data ''data'' of
               Inl e \<Rightarrow> Inl e
             | Inr d \<Rightarrow>
                 let action = mk_action d (clientId k) now;
                     s1 = s\<lparr>drawingHistory := push_history (drawingHistory s) action\<rparr>
                 in Inr (broadcastMessage (DRAW action) (Some w) s1))
          else if ty = Some (JStr ''CHAT'') then
            (case get_prop data ''Name'' of
               Inl e \<Rightarrow> Inl e
             | Inr name \<Rightarrow>
                 (case get_prop data ''res'' of
                    Inl e \<Rightarrow> Inl e
                  | Inr res \<Rightarrow>
                      if template_throws name \<or> template_throws res then Inl TypeError
                      else Inr (broadcastMessage (CHAT name res) None s)))
          else if ty = Some (JStr ''PING'') then Inr (ws_send w (PONG now) s)
          else Inr s)"

definition try_block :: "socket \<Rightarrow> ws \<Rightarrow> payload \<Rightarrow> time \<Rightarrow> state \<Rightarrow> js_error + state" where
  "try_block k w p now s =
     (case p of
        Unparsable \<Rightarrow> Inl SyntaxError
      | Parsed data \<Rightarrow> dispatch k w data now s)"

text \<open>
  The \<^verbatim>\<open>message\<close> handler of socket \<open>w\<close>. A handle that names no socket has no
  handler.
\<close>

definition on_message :: "ws \<Rightarrow> payload \<Rightarrow> time \<Rightarrow> state \<Rightarrow> state" where
  "on_message w p now s =
     (case map_of (socks s) w of
        None \<Rightarrow> s
      | Some k \<Rightarrow>
          let s1 = touch w now s in
          (case try_block k w p now s1 of
             Inr s2 \<Rightarrow> s2
           | Inl e \<Rightarrow> console_error (ErrProcessing (clientId k) e) s1))"

definition on_pong :: "ws \<Rightarrow> time \<Rightarrow> state \<Rightarrow> state" where
  "on_pong w now s =
     s\<lparr>clients := AList.map_entry w (\<lambda>i. i\<lparr>lastPong := Some now\<rparr>) (clients s)\<rparr>"

text \<open>
  The \<^verbatim>\<open>close\<close> event: the library has set the socket to \<^verbatim>\<open>CLOSED\<close> and taken it
  out of \<^verbatim>\<open>wss.clients\<close> (its own listener was registered first).
\<close>

definition on_close :: "ws \<Rightarrow> state \<Rightarrow> state" where
  "on_close w s =
     (case map_of (socks s) w of
        None \<Rightarrow> s
      | Some k \<Rightarrow>
          let s1 = (set_readyState w CLOSED s)\<lparr>wss_clients := removeAll w (wss_clients s)\<rparr>;
              s2 = clearInterval w s1;
              s3 = s2\<lparr>clients := AList.delete w (clients s2)\<rparr>
          in broadcastMessage (SYSTEM ''A user has left the whiteboard'') None s3)"

definition on_error :: "ws \<Rightarrow> state \<Rightarrow> state" where
  "on_error w s =
     (case map_of (socks s) w of
        None \<Rightarrow> s
      | Some k \<Rightarrow> clearInterval w (console_error (ErrSocket (clientId k)) s))"

text \<open>
  One firing of the heartbeat interval of socket \<open>w\<close>; \<open>fails\<close> says whether
  \<^verbatim>\<open>ws.ping()\<close> throws. A cleared interval does not fire.
\<close>

definition on_ping_timer :: "ws \<Rightarrow> bool \<Rightarrow> state \<Rightarrow> state" where
  "on_ping_timer w fails s =
     (case map_of (socks s) w of
        None \<Rightarrow> s
      | Some k \<Rightarrow>
          if \<not> pingInterval k then s
          else if readyState k = OPEN then
            (if fails then
               (let s1 = clearInterval w (console_error (ErrPing (clientId k)) s)
                in if readyState_of s1 w \<noteq> CLOSED then terminate w s1 else s1)
             else s\<lparr>trace := trace s @ [Ping w]\<rparr>)
          else clearInterval w s)"

text \<open>The cleanup interval: one pass over the entries of \<^verbatim>\<open>clients\<close>.\<close>

definition sweep_entry :: "time \<Rightarrow> ws \<times> client_info \<Rightarrow> state \<Rightarrow> state" where
  "sweep_entry now e s =
     (if now - lastActivity (snd e) > 5 * 60 * 1000 then
        (let s1 = (if readyState_of s (fst e) \<noteq> CLOSED then terminate (fst e) s else s)
         in s1\<lparr>clients := AList.delete (fst e) (clients s1)\<rparr>)
      else s)"

definition sweep :: "time \<Rightarrow> state \<Rightarrow> state" where
  "sweep now s = fold (sweep_entry now) (clients s) s"

text \<open>
  \<^verbatim>\<open>shutdown()\<close>: the notice and the close for every open socket, then
  \<^verbatim>\<open>server.close(callback)\<close> and \<^verbatim>\<open>setTimeout(callback, 5000)\<close>. The two
  callbacks are the events \<open>ServerClosed\<close> and \<open>ForceTimeout\<close> below.
\<close>

definition shutdown_client :: "ws \<Rightarrow> state \<Rightarrow> state" where
  "shutdown_client client s =
     (if readyState_of s client = OPEN
      then ws_close client 1000 ''Server shutdown''
             (ws_send client (SYSTEM ''Server is shutting down...'') s)
      else s)"

definition shutdown :: "state \<Rightarrow> state" where
  "shutdown s =
     (let s1 = fold shutdown_client (wss_clients s) s
      in s1\<lparr>trace := trace s1 @ [ServerClose, SetTimeout 5000],
            closing := True, force_timer := True\<rparr>)"

section \<open>The event loop\<close>

text \<open>
  What the environment delivers: the events of the sockets, the two intervals, the
  termination signals, and the two callbacks that \<^verbatim>\<open>shutdown()\<close> registers. An event
  carries what its handler reads from outside: the generated identifier and the remote
  address of a new connection, the result of parsing a frame, whether \<^verbatim>\<open>ws.ping()\<close>
  throws, and one reading of the clock (a handler that reads the clock twice in one turn
  is given the same value both times). The output of \<^verbatim>\<open>console.log\<close> is left out.
\<close>

datatype event =
    Connection string string time
  | Message ws payload time
  | Pong ws time
  | Close ws
  | Error ws
  | PingTimer ws bool
  | Sweep time
  | Shutdown
  | ServerClosed
  | ForceTimeout

fun step :: "state \<Rightarrow> event \<Rightarrow> state" where
  "step s (Connection uuid addr now) = on_connection uuid addr now s"
| "step s (Message w p now) = on_message w p now s"
| "step s (Pong w now) = on_pong w now s"
| "step s (Close w) = on_close w s"
| "step s (Error w) = on_error w s"
| "step s (PingTimer w fails) = on_ping_timer w fails s"
| "step s (Sweep now) = sweep now s"
| "step s Shutdown = shutdown s"
| "step s ServerClosed = (if closing s then s\<lparr>exit_code := Some 0\<rparr> else s)"
| "step s ForceTimeout =
     (if force_timer s then (console_error ForcedShutdown s)\<lparr>exit_code := Some 1\<rparr> else s)"

text \<open>
  Handlers run to completion, one after the other; once \<^verbatim>\<open>process.exit\<close> has been
  called nothing runs any more.
\<close>

fun run :: "state \<Rightarrow> event list \<Rightarrow> state" where
  "run s [] = s"
| "run s (e # es) = (if exit_code s \<noteq> None then s else run (step s e) es)"

section \<open>The handshake through the library\<close>

text \<open>
  \<^verbatim>\<open>verifyClient\<close> only calls the callback that the library hands to it; what a call
  does is the library's \<^verbatim>\<open>handleUpgrade\<close> (here as in \<^verbatim>\<open>ws\<close> 7.x, file
  \<^verbatim>\<open>lib/websocket-server.js\<close>). A call with \<^verbatim>\<open>false\<close> is \<^verbatim>\<open>abortHandshake\<close>: the
  response with the status and the reason is written if the network socket is still
  writable, and the socket is destroyed. A call with \<^verbatim>\<open>true\<close> is
  \<^verbatim>\<open>completeUpgrade\<close>: it returns at once on a socket that is no longer writable, it
  throws when the socket has been upgraded already (the mark \<^verbatim>\<open>kWebSocket\<close>), and
  otherwise it upgrades the socket and emits \<^verbatim>\<open>connection\<close>, which runs the handler
  above before it returns. The network socket of a handshake is modelled by the three
  fields that this needs; the request is taken to be a valid upgrade request on a
  writable socket.
\<close>

record upgrade_socket =
  writable :: bool
  kWebSocket :: bool
  response :: "(nat \<times> string) option"

datatype upgrade_error = UpgradedTwice

definition abortHandshake :: "nat \<Rightarrow> string \<Rightarrow> upgrade_socket \<Rightarrow> upgrade_socket" where
  "abortHandshake code message r =
     r\<lparr>response := (if writable r then Some (code, message) else response r),
       writable := False\<rparr>"

definition completeUpgrade ::
  "string \<Rightarrow> string \<Rightarrow> time \<Rightarrow> upgrade_socket \<Rightarrow> state \<Rightarrow> upgrade_error + upgrade_socket \<times> state" where
  "completeUpgrade uuid addr now r s =
     (if \<not> writable r then Inr (r, s)
      else if kWebSocket r then Inl UpgradedTwice
      else Inr (r\<lparr>kWebSocket := True\<rparr>, on_connection uuid addr now s))"

definition done_cb ::
  "verdict \<Rightarrow> string \<Rightarrow> string \<Rightarrow> time \<Rightarrow> upgrade_socket \<Rightarrow> state \<Rightarrow> upgrade_error + upgrade_socket \<times> state" where
  "done_cb v uuid addr now r s =
     (case v of
        Reject code message \<Rightarrow> Inr (abortHandshake code message r, s)
      | Accept \<Rightarrow> completeUpgrade uuid addr now r s)"

text \<open>
  Nothing in \<^verbatim>\<open>server.js\<close> catches an exception that leaves \<^verbatim>\<open>verifyClient\<close>, and
  no \<^verbatim>\<open>uncaughtException\<close> listener is registered: the process terminates with
  code 1.
\<close>

definition uncaughtException :: "state \<Rightarrow> state" where
  "uncaughtException s = s\<lparr>exit_code := Some 1\<rparr>"

text \<open>
  The calls of the callback in the order \<^verbatim>\<open>verifyClient\<close> makes them; a throw ends the
  function and the process.
\<close>

fun handleUpgrade_calls ::
  "verdict list \<Rightarrow> string \<Rightarrow> string \<Rightarrow> time \<Rightarrow> upgrade_socket \<times> state \<Rightarrow> upgrade_socket \<times> state" where
  "handleUpgrade_calls [] uuid addr now rs = rs"
| "handleUpgrade_calls (v # vs) uuid addr now rs =
     (case done_cb v uuid addr now (fst rs) (snd rs) of
        Inl e \<Rightarrow> (fst rs, uncaughtException (snd rs))
      | Inr rs' \<Rightarrow> handleUpgrade_calls vs uuid addr now rs')"

text \<open>One handshake: the origin of the request, and what a \<^verbatim>\<open>connection\<close> event reads.\<close>

definition handleUpgrade ::
  "string option \<Rightarrow> string \<Rightarrow> string \<Rightarrow> time \<Rightarrow> state \<Rightarrow> upgrade_socket \<times> state" where
  "handleUpgrade origin uuid addr now s =
     handleUpgrade_calls (verifyClient origin) uuid addr now
       (\<lparr>writable = True, kWebSocket = False, response = None\<rparr>, s)"

section \<open>Observations on a run\<close>

text \<open>The messages transmitted to one socket, in order, read off a list of effects.\<close>

definition msgs_to :: "ws \<Rightarrow> effect list \<Rightarrow> server_msg list" where
  "msgs_to w tr =
     concat (map (\<lambda>e. case e of Send c m \<Rightarrow> if c = w then [m] else [] | _ \<Rightarrow> []) tr)"

text \<open>A live connection: a member of \<^verbatim>\<open>wss.clients\<close> whose socket is open.\<close>

definition live :: "state \<Rightarrow> ws \<Rightarrow> bool" where
  "live s w = (w \<in> set (wss_clients s) \<and> readyState_of s w = OPEN)"

text \<open>The sockets a broadcast reaches, in the order of \<^verbatim>\<open>wss.clients\<close>.\<close>

definition recipients :: "state \<Rightarrow> ws option \<Rightarrow> ws list" where
  "recipients s excludeClient =
     filter (\<lambda>c. Some c \<noteq> excludeClient \<and> readyState_of s c = OPEN) (wss_clients s)"

text \<open>
  The actions that a sequence of events appends to \<^verbatim>\<open>drawingHistory\<close>: one for every
  message that reaches the \<^verbatim>\<open>DRAW\<close> branch, in the order of processing.
\<close>

fun appended_by :: "state \<Rightarrow> event \<Rightarrow> jobject list" where
  "appended_by s (Message w (Parsed (JObj kvs)) now) =
     (case map_of (socks s) w of
        None \<Rightarrow> []
      | Some k \<Rightarrow>
          if map_of kvs ''type'' = Some (JStr ''DRAW'')
          then [mk_action (map_of kvs ''data'') (clientId k) now] else [])"
| "appended_by s _ = []"

fun appended :: "state \<Rightarrow> event list \<Rightarrow> jobject list" where
  "appended s [] = []"
| "appended s (e # es) =
     (if exit_code s \<noteq> None then [] else appended_by s e @ appended (step s e) es)"

text \<open>The last \<open>n\<close> elements of a list.\<close>

definition lastn :: "nat \<Rightarrow> 'a list \<Rightarrow> 'a list" where
  "lastn n xs = drop (length xs - n) xs"

text \<open>
  A concrete state for the examples: three peers A, B and C have connected, one after
  the other, and nothing else has happened.
\<close>

definition three_live :: state where
  "three_live = run init_state
     [Connection ''A'' ''10.0.0.1'' 1000, Connection ''B'' ''10.0.0.2'' 2000,
      Connection ''C'' ''10.0.0.3'' 3000]"

text \<open>A second example state: peer A has connected and drawn once.\<close>

definition one_drawn :: state where
  "one_drawn = run init_state
     [Connection ''A'' ''10.0.0.1'' 1000,
      Message 0 (Parsed (JObj [(''type'', JStr ''DRAW''), (''data'', JObj [(''x'', JNum 1)])])) 2000]"

text \<open>The test of the cleanup interval on one entry of \<^verbatim>\<open>clients\<close>.\<close>

definition stale :: "time \<Rightarrow> ws \<times> client_info \<Rightarrow> bool" where
  "stale now e = (now - lastActivity (snd e) > 5 * 60 * 1000)"

text \<open>
  The situation of a socket after the cleanup has removed it: its handle is allocated,
  it is not open, it has no entry in \<^verbatim>\<open>clients\<close>, and the messages sent to it so far
  are \<open>ms\<close>.
\<close>

definition evicted :: "ws \<Rightarrow> server_msg list \<Rightarrow> state \<Rightarrow> bool" where
  "evicted w ms s =
     (w < next_ws s \<and> readyState_of s w \<noteq> OPEN \<and> map_of (clients s) w = None
      \<and> msgs_to w (trace s) = ms)"

text \<open>The notice that \<^verbatim>\<open>shutdown()\<close> sends.\<close>

definition shutdown_notice :: server_msg where
  "shutdown_notice = SYSTEM ''Server is shutting down...''"

text \<open>
  What the library's \<^verbatim>\<open>Set\<close> and the \<^verbatim>\<open>Map\<close> guarantee, and that every handle in
  use has been allocated: members and keys are distinct and below \<open>next_ws\<close>.
\<close>

definition wf_state :: "state \<Rightarrow> bool" where
  "wf_state s =
     (distinct (wss_clients s) \<and> distinct (map fst (clients s))
      \<and> list_all (\<lambda>w. w < next_ws s) (wss_clients s)
      \<and> list_all (\<lambda>w. w < next_ws s) (map fst (clients s)))"

text \<open>
  For the example of an eviction: the \<open>n\<close>-th \<^verbatim>\<open>DRAW\<close> frame of socket 0, processed
  at time \<open>n\<close>, and the action it makes for the client \<open>cid\<close>.
\<close>

definition draw_event :: "nat \<Rightarrow> event" where
  "draw_event n =
     Message 0 (Parsed (JObj [(''type'', JStr ''DRAW''), (''data'', JObj [(''n'', JNum (of_nat n))])]))
       (int n)"

definition draw_action :: "string \<Rightarrow> nat \<Rightarrow> jobject" where
  "draw_action cid n =
     [(''n'', JNum (of_nat n)), (''clientId'', JStr cid), (''timestamp'', JNum (of_int (int n)))]"

section \<open>Basic facts about the socket operations\<close>

lemma msgs_to_simps [simp]:
  "msgs_to w [] = []"
  "msgs_to w (tr @ tr') = msgs_to w tr @ msgs_to w tr'"
  "msgs_to w (Send c m # tr) = (if c = w then m # msgs_to w tr else msgs_to w tr)"
  "msgs_to w (Ping c # tr) = msgs_to w tr"
  "msgs_to w (Terminate c # tr) = msgs_to w tr"
  "msgs_to w (CloseWs c n r # tr) = msgs_to w tr"
  "msgs_to w (ServerClose # tr) = msgs_to w tr"
  "msgs_to w (SetTimeout n # tr) = msgs_to w tr"
  by (simp_all add: msgs_to_def)

lemma readyState_of_upd [simp]:
  "readyState_of (s\<lparr>trace := t\<rparr>) w = readyState_of s w"
  "readyState_of (s\<lparr>errors := e\<rparr>) w = readyState_of s w"
  "readyState_of (s\<lparr>clients := c\<rparr>) w = readyState_of s w"
  "readyState_of (s\<lparr>drawingHistory := h\<rparr>) w = readyState_of s w"
  "readyState_of (s\<lparr>wss_clients := l\<rparr>) w = readyState_of s w"
  "readyState_of (s\<lparr>next_ws := n\<rparr>) w = readyState_of s w"
  "readyState_of (s\<lparr>closing := b\<rparr>) w = readyState_of s w"
  "readyState_of (s\<lparr>force_timer := b\<rparr>) w = readyState_of s w"
  "readyState_of (s\<lparr>exit_code := x\<rparr>) w = readyState_of s w"
  by (simp_all add: readyState_of_def)

lemma ws_send_fields [simp]:
  "socks (ws_send w m s) = socks s"
  "wss_clients (ws_send w m s) = wss_clients s"
  "clients (ws_send w m s) = clients s"
  "drawingHistory (ws_send w m s) = drawingHistory s"
  "errors (ws_send w m s) = errors s"
  "next_ws (ws_send w m s) = next_ws s"
  "closing (ws_send w m s) = closing s"
  "force_timer (ws_send w m s) = force_timer s"
  "exit_code (ws_send w m s) = exit_code s"
  "readyState_of (ws_send w m s) c = readyState_of s c"
  by (simp_all add: ws_send_def)

lemma ws_send_trace:
  "trace (ws_send w m s) = trace s @ (if readyState_of s w = OPEN then [Send w m] else [])"
  by (simp add: ws_send_def)

lemma broadcast_fold:
  "fold (\<lambda>client s'. if Some client \<noteq> ex \<and> readyState_of s' client = OPEN
                      then ws_send client m s' else s') cs s
   = s\<lparr>trace := trace s @ map (\<lambda>c. Send c m)
                     (filter (\<lambda>c. Some c \<noteq> ex \<and> readyState_of s c = OPEN) cs)\<rparr>"
proof (induction cs arbitrary: s)
  case Nil
  show ?case by simp
next
  case (Cons c cs)
  show ?case
    by (simp add: Cons.IH ws_send_def)
qed

lemma broadcastMessage_eq:
  "broadcastMessage m ex s = s\<lparr>trace := trace s @ map (\<lambda>c. Send c m) (recipients s ex)\<rparr>"
  by (simp add: broadcastMessage_def recipients_def broadcast_fold)

lemma map_fst_map_entry: "map fst (AList.map_entry k f xs) = map fst xs"
  by (induction xs) auto

lemma touch_fields [simp]:
  "socks (touch w now s) = socks s"
  "wss_clients (touch w now s) = wss_clients s"
  "drawingHistory (touch w now s) = drawingHistory s"
  "trace (touch w now s) = trace s"
  "errors (touch w now s) = errors s"
  "next_ws (touch w now s) = next_ws s"
  "closing (touch w now s) = closing s"
  "force_timer (touch w now s) = force_timer s"
  "exit_code (touch w now s) = exit_code s"
  "readyState_of (touch w now s) c = readyState_of s c"
  "map fst (clients (touch w now s)) = map fst (clients s)"
  by (simp_all add: touch_def map_fst_map_entry)

lemma touch_lookup:
  "map_of (clients (touch w now s)) c =
     (if c = w then map_option (\<lambda>i. i\<lparr>lastActivity := now\<rparr>) (map_of (clients s) w)
      else map_of (clients s) c)"
  by (simp add: touch_def AList.map_of_map_entry split: option.splits)

lemma console_error_fields [simp]:
  "socks (console_error e s) = socks s"
  "wss_clients (console_error e s) = wss_clients s"
  "clients (console_error e s) = clients s"
  "drawingHistory (console_error e s) = drawingHistory s"
  "trace (console_error e s) = trace s"
  "errors (console_error e s) = errors s @ [e]"
  "next_ws (console_error e s) = next_ws s"
  "closing (console_error e s) = closing s"
  "force_timer (console_error e s) = force_timer s"
  "exit_code (console_error e s) = exit_code s"
  "readyState_of (console_error e s) c = readyState_of s c"
  by (simp_all add: console_error_def)

lemma recipients_cong:
  "socks s' = socks s \<Longrightarrow> wss_clients s' = wss_clients s \<Longrightarrow> recipients s' ex = recipients s ex"
  by (simp add: recipients_def readyState_of_def)

lemma msgs_to_map_Send:
  "msgs_to w (map (\<lambda>c. Send c m) cs) = replicate (length (filter (\<lambda>c. c = w) cs)) m"
  by (induction cs) auto

lemma filter_eq_distinct:
  "distinct cs \<Longrightarrow> length (filter (\<lambda>c. c = w) cs) = (if w \<in> set cs then 1 else 0)"
  by (induction cs) auto

lemma msgs_to_broadcast:
  assumes "distinct (wss_clients s)"
  shows "msgs_to c (map (\<lambda>c. Send c m) (recipients s ex))
         = (if live s c \<and> Some c \<noteq> ex then [m] else [])"
proof -
  have d: "distinct (recipients s ex)"
    using assms by (simp add: recipients_def)
  have "c \<in> set (recipients s ex) \<longleftrightarrow> live s c \<and> Some c \<noteq> ex"
    by (auto simp: recipients_def live_def)
  with d show ?thesis
    by (simp add: msgs_to_map_Send filter_eq_distinct)
qed

lemma mk_action_clientId: "map_of (mk_action d cid now) ''clientId'' = Some (JStr cid)"
  by (simp add: mk_action_def AList.update_conv)

lemma mk_action_timestamp: "map_of (mk_action d cid now) ''timestamp'' = Some (JNum (of_int now))"
  by (simp add: mk_action_def AList.update_conv)

lemma last_push_history: "last (push_history h a) = a"
  by (cases h) (simp_all add: push_history_def MAX_HISTORY_def Let_def)

lemma on_message_draw:
  assumes "map_of (socks s) w = Some k" and "map_of kvs ''type'' = Some (JStr ''DRAW'')"
  shows "on_message w (Parsed (JObj kvs)) now s =
         broadcastMessage (DRAW (mk_action (map_of kvs ''data'') (clientId k) now)) (Some w)
           ((touch w now s)\<lparr>drawingHistory :=
               push_history (drawingHistory s) (mk_action (map_of kvs ''data'') (clientId k) now)\<rparr>)"
  using assms
  by (simp add: on_message_def try_block_def dispatch_def get_prop_def template_throws_def Let_def)

lemma on_message_chat:
  assumes "map_of (socks s) w = Some k" and "map_of kvs ''type'' = Some (JStr ''CHAT'')"
    and "\<not> template_throws (map_of kvs ''Name'')" and "\<not> template_throws (map_of kvs ''res'')"
  shows "on_message w (Parsed (JObj kvs)) now s =
         broadcastMessage (CHAT (map_of kvs ''Name'') (map_of kvs ''res'')) None (touch w now s)"
  using assms
  by (simp add: on_message_def try_block_def dispatch_def get_prop_def Let_def)
    (simp add: template_throws_def)

lemma fold_field: "(\<And>x s. g (f x s) = g s) \<Longrightarrow> g (fold f xs s) = g s"
  by (induction xs arbitrary: s) auto

lemmas fold_fields =
  fold_field [where g = socks] fold_field [where g = wss_clients] fold_field [where g = clients]
  fold_field [where g = drawingHistory] fold_field [where g = errors]
  fold_field [where g = next_ws] fold_field [where g = closing]
  fold_field [where g = force_timer] fold_field [where g = exit_code]

lemma fold_pres: "(\<And>x s. P s \<Longrightarrow> P (f x s)) \<Longrightarrow> P s \<Longrightarrow> P (fold f xs s)"
  by (induction xs arbitrary: s) auto

lemma set_readyState_fields [simp]:
  "wss_clients (set_readyState w r s) = wss_clients s"
  "clients (set_readyState w r s) = clients s"
  "drawingHistory (set_readyState w r s) = drawingHistory s"
  "trace (set_readyState w r s) = trace s"
  "errors (set_readyState w r s) = errors s"
  "next_ws (set_readyState w r s) = next_ws s"
  "closing (set_readyState w r s) = closing s"
  "force_timer (set_readyState w r s) = force_timer s"
  "exit_code (set_readyState w r s) = exit_code s"
  "map fst (socks (set_readyState w r s)) = map fst (socks s)"
  by (simp_all add: set_readyState_def map_fst_map_entry)

lemma set_readyState_readyState_of:
  "readyState_of (set_readyState w r s) c =
     (if c = w \<and> map_of (socks s) w \<noteq> None then r else readyState_of s c)"
  by (auto simp add: set_readyState_def readyState_of_def AList.map_of_map_entry
      split: option.splits)

lemma readyState_of_dom: "readyState_of s w \<noteq> CLOSED \<Longrightarrow> map_of (socks s) w \<noteq> None"
  by (auto simp add: readyState_of_def split: option.splits)

lemma clearInterval_fields [simp]:
  "wss_clients (clearInterval w s) = wss_clients s"
  "clients (clearInterval w s) = clients s"
  "drawingHistory (clearInterval w s) = drawingHistory s"
  "trace (clearInterval w s) = trace s"
  "errors (clearInterval w s) = errors s"
  "next_ws (clearInterval w s) = next_ws s"
  "closing (clearInterval w s) = closing s"
  "force_timer (clearInterval w s) = force_timer s"
  "exit_code (clearInterval w s) = exit_code s"
  "map fst (socks (clearInterval w s)) = map fst (socks s)"
  "readyState_of (clearInterval w s) c = readyState_of s c"
  by (auto simp add: clearInterval_def map_fst_map_entry readyState_of_def
      AList.map_of_map_entry split: option.splits)

lemma terminate_fields [simp]:
  "wss_clients (terminate w s) = wss_clients s"
  "clients (terminate w s) = clients s"
  "drawingHistory (terminate w s) = drawingHistory s"
  "errors (terminate w s) = errors s"
  "next_ws (terminate w s) = next_ws s"
  "closing (terminate w s) = closing s"
  "force_timer (terminate w s) = force_timer s"
  "exit_code (terminate w s) = exit_code s"
  "map fst (socks (terminate w s)) = map fst (socks s)"
  by (simp_all add: terminate_def)

lemma terminate_trace:
  "trace (terminate w s) = trace s @ (if readyState_of s w = CLOSED then [] else [Terminate w])"
  by (simp add: terminate_def)

lemma terminate_readyState_of:
  "readyState_of (terminate w s) c =
     (if c = w \<and> readyState_of s w \<noteq> CLOSED then CLOSING else readyState_of s c)"
  using readyState_of_dom [of s w]
  by (auto simp add: terminate_def set_readyState_readyState_of)

lemma ws_close_fields [simp]:
  "wss_clients (ws_close w n r s) = wss_clients s"
  "clients (ws_close w n r s) = clients s"
  "drawingHistory (ws_close w n r s) = drawingHistory s"
  "errors (ws_close w n r s) = errors s"
  "next_ws (ws_close w n r s) = next_ws s"
  "closing (ws_close w n r s) = closing s"
  "force_timer (ws_close w n r s) = force_timer s"
  "exit_code (ws_close w n r s) = exit_code s"
  "map fst (socks (ws_close w n r s)) = map fst (socks s)"
  by (simp_all add: ws_close_def)

lemma ws_close_trace:
  "trace (ws_close w n r s) = trace s @ (if readyState_of s w = OPEN then [CloseWs w n r] else [])"
  by (simp add: ws_close_def)

lemma ws_close_readyState_of:
  "readyState_of (ws_close w n r s) c =
     (if c = w \<and> readyState_of s w = OPEN then CLOSING else readyState_of s c)"
  using readyState_of_dom [of s w]
  by (auto simp add: ws_close_def set_readyState_readyState_of)

lemma broadcastMessage_fields [simp]:
  "socks (broadcastMessage m ex s) = socks s"
  "wss_clients (broadcastMessage m ex s) = wss_clients s"
  "clients (broadcastMessage m ex s) = clients s"
  "drawingHistory (broadcastMessage m ex s) = drawingHistory s"
  "errors (broadcastMessage m ex s) = errors s"
  "next_ws (broadcastMessage m ex s) = next_ws s"
  "closing (broadcastMessage m ex s) = closing s"
  "force_timer (broadcastMessage m ex s) = force_timer s"
  "exit_code (broadcastMessage m ex s) = exit_code s"
  "readyState_of (broadcastMessage m ex s) c = readyState_of s c"
  by (simp_all add: broadcastMessage_eq)

lemma sweep_entry_fields [simp]:
  "wss_clients (sweep_entry now e s) = wss_clients s"
  "drawingHistory (sweep_entry now e s) = drawingHistory s"
  "errors (sweep_entry now e s) = errors s"
  "next_ws (sweep_entry now e s) = next_ws s"
  "closing (sweep_entry now e s) = closing s"
  "force_timer (sweep_entry now e s) = force_timer s"
  "exit_code (sweep_entry now e s) = exit_code s"
  by (simp_all add: sweep_entry_def Let_def)

lemma sweep_fields [simp]:
  "wss_clients (sweep now s) = wss_clients s"
  "drawingHistory (sweep now s) = drawingHistory s"
  "errors (sweep now s) = errors s"
  "next_ws (sweep now s) = next_ws s"
  "closing (sweep now s) = closing s"
  "force_timer (sweep now s) = force_timer s"
  "exit_code (sweep now s) = exit_code s"
  by (simp_all add: sweep_def fold_fields)

lemma shutdown_client_fields [simp]:
  "wss_clients (shutdown_client c s) = wss_clients s"
  "clients (shutdown_client c s) = clients s"
  "drawingHistory (shutdown_client c s) = drawingHistory s"
  "errors (shutdown_client c s) = errors s"
  "next_ws (shutdown_client c s) = next_ws s"
  "closing (shutdown_client c s) = closing s"
  "force_timer (shutdown_client c s) = force_timer s"
  "exit_code (shutdown_client c s) = exit_code s"
  by (simp_all add: shutdown_client_def)

lemma shutdown_fields [simp]:
  "wss_clients (shutdown s) = wss_clients s"
  "clients (shutdown s) = clients s"
  "drawingHistory (shutdown s) = drawingHistory s"
  "errors (shutdown s) = errors s"
  "next_ws (shutdown s) = next_ws s"
  "exit_code (shutdown s) = exit_code s"
  "closing (shutdown s)"
  "force_timer (shutdown s)"
  by (simp_all add: shutdown_def Let_def fold_fields)

lemma dispatch_Inl_or:
  "dispatch k w data now s = Inr s' \<Longrightarrow>
     clients s' = clients s \<and> socks s' = socks s \<and> wss_clients s' = wss_clients s
     \<and> errors s' = errors s \<and> next_ws s' = next_ws s \<and> closing s' = closing s
     \<and> force_timer s' = force_timer s \<and> exit_code s' = exit_code s"
  by (auto simp add: dispatch_def Let_def split: sum.splits if_splits)

lemma on_message_fields [simp]:
  "socks (on_message w p now s) = socks s"
  "wss_clients (on_message w p now s) = wss_clients s"
  "next_ws (on_message w p now s) = next_ws s"
  "closing (on_message w p now s) = closing s"
  "force_timer (on_message w p now s) = force_timer s"
  "exit_code (on_message w p now s) = exit_code s"
  by (auto simp add: on_message_def try_block_def Let_def
      split: option.splits sum.splits payload.splits dest!: dispatch_Inl_or)

lemma on_message_clients_cases:
  "clients (on_message w p now s) = clients (touch w now s) \<or> clients (on_message w p now s) = clients s"
  by (auto simp add: on_message_def try_block_def Let_def
      split: option.splits sum.splits payload.splits dest!: dispatch_Inl_or)

lemma on_message_keys: "map fst (clients (on_message w p now s)) = map fst (clients s)"
  using on_message_clients_cases [of w p now s] by (elim disjE) simp_all

lemma on_message_clients:
  "map_of (socks s) w = Some k \<Longrightarrow> clients (on_message w p now s) = clients (touch w now s)"
  by (auto simp add: on_message_def try_block_def Let_def
      split: option.splits sum.splits payload.splits dest!: dispatch_Inl_or)

lemma on_message_history:
  "drawingHistory (on_message w p now s)
   = fold (\<lambda>a h. push_history h a) (appended_by s (Message w p now)) (drawingHistory s)"
proof (cases "map_of (socks s) w")
  case None
  then show ?thesis
    by (cases "(s, Message w p now)" rule: appended_by.cases) (simp_all add: on_message_def)
next
  case (Some k)
  show ?thesis
  proof (cases p)
    case Unparsable
    then show ?thesis using Some by (simp add: on_message_def try_block_def Let_def)
  next
    case (Parsed data)
    then show ?thesis using Some
      by (cases data)
        (simp_all add: on_message_def try_block_def dispatch_def get_prop_def template_throws_def
          Let_def split: option.splits)
  qed
qed

lemma readyState_of_update:
  "readyState_of (s\<lparr>socks := AList.update w v (socks s)\<rparr>) c
   = (if c = w then readyState v else readyState_of s c)"
  by (simp add: readyState_of_def AList.update_conv)

lemma on_connection_fields [simp]:
  "socks (on_connection uuid addr now s)
     = AList.update (next_ws s) \<lparr>readyState = OPEN, clientId = uuid, pingInterval = True\<rparr> (socks s)"
  "wss_clients (on_connection uuid addr now s) = wss_clients s @ [next_ws s]"
  "clients (on_connection uuid addr now s)
     = AList.update (next_ws s)
         \<lparr>id_info = uuid, ip = addr, connectedAt = now, lastActivity = now, lastPong = None\<rparr>
         (clients s)"
  "drawingHistory (on_connection uuid addr now s) = drawingHistory s"
  "errors (on_connection uuid addr now s) = errors s"
  "next_ws (on_connection uuid addr now s) = Suc (next_ws s)"
  "closing (on_connection uuid addr now s) = closing s"
  "force_timer (on_connection uuid addr now s) = force_timer s"
  "exit_code (on_connection uuid addr now s) = exit_code s"
  by (simp_all add: on_connection_def Let_def)

lemma on_connection_trace:
  "trace (on_connection uuid addr now s)
   = trace s @ [Send (next_ws s) (INIT (drawingHistory s)),
                Send (next_ws s) (SYSTEM ''Connected to whiteboard server'')]
     @ map (\<lambda>c. Send c (SYSTEM ''A new user has joined the whiteboard''))
         (filter (\<lambda>c. c \<noteq> next_ws s \<and> readyState_of s c = OPEN) (wss_clients s))"
proof -
  let ?v = "\<lparr>readyState = OPEN, clientId = uuid, pingInterval = True\<rparr>"
  let ?s1 = "s\<lparr>socks := AList.update (next_ws s) ?v (socks s)\<rparr>"
  have r: "\<And>c. readyState_of ?s1 c = (if c = next_ws s then OPEN else readyState_of s c)"
    by (simp add: readyState_of_update)
  have f: "filter (\<lambda>c. c \<noteq> next_ws s \<and> readyState_of ?s1 c = OPEN) (wss_clients s)
         = filter (\<lambda>c. c \<noteq> next_ws s \<and> readyState_of s c = OPEN) (wss_clients s)"
    by (rule filter_cong) (auto simp add: r)
  show ?thesis
    using f
    by (simp add: on_connection_def Let_def broadcastMessage_eq recipients_def ws_send_trace r)
qed

lemma on_pong_fields [simp]:
  "socks (on_pong w now s) = socks s"
  "wss_clients (on_pong w now s) = wss_clients s"
  "drawingHistory (on_pong w now s) = drawingHistory s"
  "trace (on_pong w now s) = trace s"
  "errors (on_pong w now s) = errors s"
  "next_ws (on_pong w now s) = next_ws s"
  "closing (on_pong w now s) = closing s"
  "force_timer (on_pong w now s) = force_timer s"
  "exit_code (on_pong w now s) = exit_code s"
  "map fst (clients (on_pong w now s)) = map fst (clients s)"
  by (simp_all add: on_pong_def map_fst_map_entry)

lemma on_close_fields [simp]:
  "wss_clients (on_close w s)
     = (if map_of (socks s) w = None then wss_clients s else removeAll w (wss_clients s))"
  "clients (on_close w s)
     = (if map_of (socks s) w = None then clients s else AList.delete w (clients s))"
  "drawingHistory (on_close w s) = drawingHistory s"
  "errors (on_close w s) = errors s"
  "next_ws (on_close w s) = next_ws s"
  "closing (on_close w s) = closing s"
  "force_timer (on_close w s) = force_timer s"
  "exit_code (on_close w s) = exit_code s"
  "map fst (socks (on_close w s)) = map fst (socks s)"
  by (simp_all add: on_close_def Let_def split: option.splits)

lemma on_error_fields [simp]:
  "wss_clients (on_error w s) = wss_clients s"
  "clients (on_error w s) = clients s"
  "drawingHistory (on_error w s) = drawingHistory s"
  "trace (on_error w s) = trace s"
  "next_ws (on_error w s) = next_ws s"
  "closing (on_error w s) = closing s"
  "force_timer (on_error w s) = force_timer s"
  "exit_code (on_error w s) = exit_code s"
  "map fst (socks (on_error w s)) = map fst (socks s)"
  "readyState_of (on_error w s) c = readyState_of s c"
  by (simp_all add: on_error_def split: option.splits)

lemma on_ping_timer_fields [simp]:
  "wss_clients (on_ping_timer w fails s) = wss_clients s"
  "clients (on_ping_timer w fails s) = clients s"
  "drawingHistory (on_ping_timer w fails s) = drawingHistory s"
  "next_ws (on_ping_timer w fails s) = next_ws s"
  "closing (on_ping_timer w fails s) = closing s"
  "force_timer (on_ping_timer w fails s) = force_timer s"
  "exit_code (on_ping_timer w fails s) = exit_code s"
  "map fst (socks (on_ping_timer w fails s)) = map fst (socks s)"
  by (simp_all add: on_ping_timer_def Let_def split: option.splits)

lemma step_history:
  "drawingHistory (step s e)
   = fold (\<lambda>a h. push_history h a) (appended_by s e) (drawingHistory s)"
  by (cases e) (simp_all add: on_message_history)

section \<open>The history window\<close>

lemma push_history_lastn:
  "length h \<le> MAX_HISTORY \<Longrightarrow> push_history h a = lastn MAX_HISTORY (h @ [a])"
proof (cases "length h = MAX_HISTORY")
  case True
  then have "push_history h a = tl (h @ [a])"
    by (simp add: push_history_def Let_def)
  moreover have "lastn MAX_HISTORY (h @ [a]) = drop (Suc 0) (h @ [a])"
    using True by (simp add: lastn_def)
  moreover have "h \<noteq> []"
    using True by (auto simp add: MAX_HISTORY_def)
  ultimately show ?thesis
    by (cases h) (simp_all add: drop_Suc)
next
  case False
  assume "length h \<le> MAX_HISTORY"
  with False have "length h < MAX_HISTORY" by simp
  then show ?thesis
    by (simp add: push_history_def Let_def lastn_def)
qed

lemma lastn_lastn_append: "lastn n (lastn n xs @ ys) = lastn n (xs @ ys)"
proof (cases "length xs \<le> n")
  case True
  then show ?thesis by (simp add: lastn_def)
next
  case False
  then have n: "n < length xs" by simp
  have "lastn n (lastn n xs @ ys) = drop (length ys) (drop (length xs - n) xs @ ys)"
    using n by (simp add: lastn_def)
  also have "\<dots> = drop (length ys) (drop (length xs - n) (xs @ ys))"
    by simp
  also have "\<dots> = drop (length ys + (length xs - n)) (xs @ ys)"
    by (simp only: drop_drop)
  also have "length ys + (length xs - n) = length (xs @ ys) - n"
    using n by simp
  finally show ?thesis
    by (simp only: lastn_def)
qed

lemma length_lastn: "length (lastn n xs) \<le> n"
  by (simp add: lastn_def)

lemma lastn_id: "length xs \<le> n \<Longrightarrow> lastn n xs = xs"
  by (simp add: lastn_def)

lemma step_history_lastn:
  assumes "length (drawingHistory s) \<le> MAX_HISTORY"
  shows "drawingHistory (step s e) = lastn MAX_HISTORY (drawingHistory s @ appended_by s e)"
proof (cases "appended_by s e")
  case Nil
  then show ?thesis using assms by (simp add: step_history lastn_id)
next
  case (Cons a as)
  have "as = []"
    using Cons by (cases "(s, e)" rule: appended_by.cases) (auto split: option.splits if_splits)
  then show ?thesis
    using Cons assms by (simp add: step_history push_history_lastn)
qed

lemma run_history_lastn:
  "length (drawingHistory s) \<le> MAX_HISTORY \<Longrightarrow>
   drawingHistory (run s evs) = lastn MAX_HISTORY (drawingHistory s @ appended s evs)"
proof (induction evs arbitrary: s)
  case Nil
  then show ?case by (simp add: lastn_id)
next
  case (Cons e es)
  show ?case
  proof (cases "exit_code s = None")
    case False
    then show ?thesis using Cons.prems by (simp add: lastn_id)
  next
    case True
    have l: "length (drawingHistory (step s e)) \<le> MAX_HISTORY"
      by (simp add: step_history_lastn [OF Cons.prems] length_lastn)
    have "drawingHistory (run s (e # es))
          = lastn MAX_HISTORY (drawingHistory (step s e) @ appended (step s e) es)"
      using True Cons.IH [OF l] by simp
    also have "\<dots> = lastn MAX_HISTORY ((drawingHistory s @ appended_by s e) @ appended (step s e) es)"
      by (simp only: step_history_lastn [OF Cons.prems] lastn_lastn_append)
    finally show ?thesis using True by simp
  qed
qed

section \<open>The example state\<close>

lemmas handler_defs =
  on_connection_def on_message_def on_pong_def on_close_def on_error_def on_ping_timer_def
  sweep_def sweep_entry_def shutdown_def shutdown_client_def broadcastMessage_def
  ws_send_def ws_close_def terminate_def set_readyState_def clearInterval_def
  console_error_def touch_def readyState_of_def try_block_def dispatch_def get_prop_def
  template_throws_def push_history_def MAX_HISTORY_def init_state_def

lemma three_live_eval:
  "three_live =
     \<lparr>socks = [(0, \<lparr>readyState = OPEN, clientId = ''A'', pingInterval = True\<rparr>),
               (1, \<lparr>readyState = OPEN, clientId = ''B'', pingInterval = True\<rparr>),
               (2, \<lparr>readyState = OPEN, clientId = ''C'', pingInterval = True\<rparr>)],
      next_ws = 3, wss_clients = [0, 1, 2],
      clients =
        [(0, \<lparr>id_info = ''A'', ip = ''10.0.0.1'', connectedAt = 1000, lastActivity = 1000,
               lastPong = None\<rparr>),
         (1, \<lparr>id_info = ''B'', ip = ''10.0.0.2'', connectedAt = 2000, lastActivity = 2000,
               lastPong = None\<rparr>),
         (2, \<lparr>id_info = ''C'', ip = ''10.0.0.3'', connectedAt = 3000, lastActivity = 3000,
               lastPong = None\<rparr>)],
      drawingHistory = [],
      trace =
        [Send 0 (INIT []), Send 0 (SYSTEM ''Connected to whiteboard server''),
         Send 1 (INIT []), Send 1 (SYSTEM ''Connected to whiteboard server''),
         Send 0 (SYSTEM ''A new user has joined the whiteboard''),
         Send 2 (INIT []), Send 2 (SYSTEM ''Connected to whiteboard server''),
         Send 0 (SYSTEM ''A new user has joined the whiteboard''),
         Send 1 (SYSTEM ''A new user has joined the whiteboard'')],
      errors = [], closing = False, force_timer = False, exit_code = None\<rparr>"
  by (simp add: three_live_def handler_defs Let_def)

lemma three_live_sock0:
  "map_of (socks three_live) 0 = Some \<lparr>readyState = OPEN, clientId = ''A'', pingInterval = True\<rparr>"
  by (simp add: three_live_eval)

lemma three_live_distinct: "distinct (wss_clients three_live)"
  by (simp add: three_live_eval)

lemma three_live_live: "live three_live 0" "live three_live 1" "live three_live 2"
  by (simp_all add: live_def three_live_eval readyState_of_def)

section \<open>The trace only grows\<close>

lemma dispatch_trace_prefix:
  "dispatch k w data now s = Inr s' \<Longrightarrow> prefix (trace s) (trace s')"
  by (auto simp add: dispatch_def Let_def broadcastMessage_eq ws_send_trace
      split: sum.splits if_splits)

lemma on_message_prefix: "prefix (trace s) (trace (on_message w p now s))"
proof -
  have "\<And>k s'. dispatch k w data now (touch w now s) = Inr s' \<Longrightarrow> prefix (trace s) (trace s')" for data
    using dispatch_trace_prefix by fastforce
  then show ?thesis
    by (auto simp add: on_message_def try_block_def Let_def
        split: option.splits sum.splits payload.splits)
qed

lemma sweep_entry_prefix: "prefix (trace s) (trace (sweep_entry now e s))"
  by (simp add: sweep_entry_def Let_def terminate_trace)

lemma fold_prefix:
  "(\<And>x s. prefix (trace s) (trace (f x s))) \<Longrightarrow> prefix (trace s) (trace (fold f xs s))"
proof (induction xs arbitrary: s)
  case Nil
  show ?case by simp
next
  case (Cons x xs)
  have "prefix (trace s) (trace (f x s))" by (rule Cons.prems)
  also have "prefix (trace (f x s)) (trace (fold f xs (f x s)))"
    by (rule Cons.IH) (rule Cons.prems)
  finally show ?case by simp
qed

lemma shutdown_client_prefix: "prefix (trace s) (trace (shutdown_client c s))"
  by (simp add: shutdown_client_def ws_close_trace ws_send_trace)

lemma step_prefix: "prefix (trace s) (trace (step s e))"
proof (cases e)
  case (Connection uuid addr now)
  then show ?thesis by (simp add: on_connection_trace)
next
  case (Message w p now)
  then show ?thesis by (simp add: on_message_prefix)
next
  case (Close w)
  then show ?thesis
    by (simp add: on_close_def Let_def broadcastMessage_eq split: option.splits)
next
  case (PingTimer w fails)
  then show ?thesis
    by (simp add: on_ping_timer_def Let_def terminate_trace split: option.splits)
next
  case (Sweep now)
  then show ?thesis
    by (simp add: sweep_def fold_prefix sweep_entry_prefix)
next
  case Shutdown
  have "prefix (trace s) (trace (fold shutdown_client (wss_clients s) s))"
    by (rule fold_prefix) (rule shutdown_client_prefix)
  then have "prefix (trace s)
               (trace (fold shutdown_client (wss_clients s) s) @ [ServerClose, SetTimeout 5000])"
    by (rule prefix_prefix)
  then show ?thesis
    using Shutdown by (simp add: shutdown_def Let_def)
qed (simp_all add: console_error_def)

lemma run_prefix: "prefix (trace s) (trace (run s evs))"
proof (induction evs arbitrary: s)
  case Nil
  show ?case by simp
next
  case (Cons e es)
  have "prefix (trace s) (trace (step s e))" by (rule step_prefix)
  also have "prefix (trace (step s e)) (trace (run (step s e) es))" by (rule Cons.IH)
  finally show ?case by simp
qed

section \<open>The cleanup pass\<close>

lemma sweep_entry_clients:
  "clients (sweep_entry now e s)
   = (if stale now e then filter (\<lambda>e'. fst e' \<noteq> fst e) (clients s) else clients s)"
  by (auto simp add: sweep_entry_def stale_def Let_def AList.delete_eq intro: filter_cong)

lemma sweep_entry_trace:
  "trace (sweep_entry now e s)
   = trace s @ (if stale now e \<and> readyState_of s (fst e) \<noteq> CLOSED then [Terminate (fst e)] else [])"
  by (simp add: sweep_entry_def stale_def Let_def terminate_trace)

lemma sweep_entry_readyState_of:
  "readyState_of (sweep_entry now e s) c
   = (if stale now e \<and> c = fst e \<and> readyState_of s c \<noteq> CLOSED then CLOSING
      else readyState_of s c)"
  by (simp add: sweep_entry_def stale_def Let_def terminate_readyState_of)

lemma sweep_fold_clients:
  "clients (fold (sweep_entry now) es s)
   = filter (\<lambda>e'. fst e' \<notin> fst ` set (filter (stale now) es)) (clients s)"
proof (induction es arbitrary: s)
  case Nil
  show ?case by simp
next
  case (Cons e es)
  show ?case
    by (auto simp add: Cons.IH sweep_entry_clients intro: filter_cong)
qed

lemma sweep_fold_readyState_of:
  "readyState_of (fold (sweep_entry now) es s) c
   = (if c \<in> fst ` set (filter (stale now) es) \<and> readyState_of s c \<noteq> CLOSED then CLOSING
      else readyState_of s c)"
proof (induction es arbitrary: s)
  case Nil
  show ?case by simp
next
  case (Cons e es)
  show ?case
    by (auto simp add: Cons.IH sweep_entry_readyState_of)
qed

lemma sweep_fold_trace:
  "trace (fold (sweep_entry now) es s)
   = trace s @ map Terminate
       (filter (\<lambda>c. readyState_of s c \<noteq> CLOSED) (map fst (filter (stale now) es)))"
proof (induction es arbitrary: s)
  case Nil
  show ?case by simp
next
  case (Cons e es)
  have c: "(readyState_of (sweep_entry now e s) c \<noteq> CLOSED) = (readyState_of s c \<noteq> CLOSED)" for c
    by (auto simp add: sweep_entry_readyState_of)
  show ?case
    by (simp add: Cons.IH sweep_entry_trace c)
qed

lemma stale_key_iff:
  assumes "distinct (map fst xs)" and "e \<in> set xs"
  shows "fst e \<in> fst ` set (filter (stale now) xs) \<longleftrightarrow> stale now e"
proof
  assume "fst e \<in> fst ` set (filter (stale now) xs)"
  then obtain e' where e': "e' \<in> set xs" "stale now e'" "fst e' = fst e"
    by auto
  from assms e' have "e' = e"
    by (metis eq_key_imp_eq_value prod.collapse)
  with e' show "stale now e" by simp
next
  assume "stale now e"
  with assms show "fst e \<in> fst ` set (filter (stale now) xs)"
    by auto
qed

lemma sweep_clients:
  assumes "distinct (map fst (clients s))"
  shows "clients (sweep now s) = filter (\<lambda>e. \<not> stale now e) (clients s)"
  unfolding sweep_def sweep_fold_clients
proof (rule filter_cong [OF refl])
  fix e
  assume "e \<in> set (clients s)"
  then show "(fst e \<notin> fst ` set (filter (stale now) (clients s))) = (\<not> stale now e)"
    using stale_key_iff [OF assms] by blast
qed

lemma sweep_lookup:
  assumes "distinct (map fst (clients s))" and "map_of (clients s) w = Some i"
  shows "map_of (clients (sweep now s)) w = (if stale now (w, i) then None else Some i)"
proof -
  have in_set: "(w, i) \<in> set (clients s)"
    using assms(2) by (rule map_of_SomeD)
  have d: "distinct (map fst (filter (\<lambda>e. \<not> stale now e) (clients s)))"
    using assms(1) by (rule distinct_map_filter)
  show ?thesis
  proof (cases "stale now (w, i)")
    case True
    have "w \<notin> fst ` set (filter (\<lambda>e. \<not> stale now e) (clients s))"
    proof
      assume "w \<in> fst ` set (filter (\<lambda>e. \<not> stale now e) (clients s))"
      then obtain j where j: "(w, j) \<in> set (clients s)" "\<not> stale now (w, j)"
        by auto
      from assms(1) in_set j(1) have "j = i"
        by (metis eq_key_imp_eq_value)
      with j True show False by simp
    qed
    then show ?thesis
      using True by (simp add: sweep_clients [OF assms(1)] map_of_eq_None_iff)
  next
    case False
    with in_set have "(w, i) \<in> set (filter (\<lambda>e. \<not> stale now e) (clients s))"
      by simp
    with d have "map_of (filter (\<lambda>e. \<not> stale now e) (clients s)) w = Some i"
      by (rule map_of_is_SomeI)
    then show ?thesis
      using False by (simp add: sweep_clients [OF assms(1)])
  qed
qed

lemma sweep_trace:
  "trace (sweep now s)
   = trace s @ map Terminate
       (filter (\<lambda>c. readyState_of s c \<noteq> CLOSED) (map fst (filter (stale now) (clients s))))"
  by (simp add: sweep_def sweep_fold_trace)

lemma sweep_readyState_of:
  "readyState_of (sweep now s) c
   = (if c \<in> fst ` set (filter (stale now) (clients s)) \<and> readyState_of s c \<noteq> CLOSED then CLOSING
      else readyState_of s c)"
  by (simp add: sweep_def sweep_fold_readyState_of)

section \<open>A socket that is not open receives nothing\<close>

lemma msgs_to_map_Terminate [simp]: "msgs_to w (map Terminate cs) = []"
  by (induction cs) auto

lemma msgs_to_recipients_closed:
  assumes "readyState_of s w \<noteq> OPEN"
  shows "msgs_to w (map (\<lambda>c. Send c m) (recipients s ex)) = []"
proof -
  have "filter (\<lambda>c. c = w) (recipients s ex) = []"
    using assms by (auto simp add: recipients_def filter_empty_conv)
  then show ?thesis
    by (simp add: msgs_to_map_Send)
qed

lemma map_of_filter_None: "map_of xs w = None \<Longrightarrow> map_of (filter P xs) w = None"
  by (induction xs) (auto split: if_splits)

lemma map_of_map_entry_None: "map_of xs w = None \<Longrightarrow> map_of (AList.map_entry k f xs) w = None"
  by (auto simp add: AList.map_of_map_entry)

lemma map_of_delete_None: "map_of xs w = None \<Longrightarrow> map_of (AList.delete k xs) w = None"
  by (simp add: AList.delete_conv)

lemma ws_send_closed:
  "readyState_of s w \<noteq> OPEN \<Longrightarrow> msgs_to w (trace (ws_send c m s)) = msgs_to w (trace s)"
  by (auto simp add: ws_send_trace)

lemma broadcast_closed:
  "readyState_of s w \<noteq> OPEN \<Longrightarrow>
   msgs_to w (trace (broadcastMessage m ex s)) = msgs_to w (trace s)"
  by (simp add: broadcastMessage_eq msgs_to_recipients_closed)

lemma dispatch_closed:
  assumes "dispatch k c data now s = Inr s'" and "readyState_of s w \<noteq> OPEN"
  shows "msgs_to w (trace s') = msgs_to w (trace s)"
  using assms
  by (auto simp add: dispatch_def Let_def broadcast_closed ws_send_closed
      split: sum.splits if_splits)

lemma on_message_closed:
  assumes "readyState_of s w \<noteq> OPEN"
  shows "msgs_to w (trace (on_message c p now s)) = msgs_to w (trace s)"
proof -
  have "readyState_of (touch c now s) w \<noteq> OPEN"
    using assms by simp
  then have "\<And>k data s'. dispatch k c data now (touch c now s) = Inr s' \<Longrightarrow>
               msgs_to w (trace s') = msgs_to w (trace s)"
    using dispatch_closed by fastforce
  then show ?thesis
    by (auto simp add: on_message_def try_block_def Let_def
        split: option.splits sum.splits payload.splits)
qed

lemma on_message_lookup_None:
  "map_of (clients s) w = None \<Longrightarrow> map_of (clients (on_message c p now s)) w = None"
  using on_message_clients_cases [of c p now s]
  by (auto simp add: touch_def map_of_map_entry_None)

lemma on_close_readyState_of:
  "readyState_of s w \<noteq> OPEN \<Longrightarrow> readyState_of (on_close c s) w \<noteq> OPEN"
  by (auto simp add: on_close_def Let_def set_readyState_readyState_of split: option.splits)

lemma on_close_closed:
  "readyState_of s w \<noteq> OPEN \<Longrightarrow> msgs_to w (trace (on_close c s)) = msgs_to w (trace s)"
  by (auto simp add: on_close_def Let_def set_readyState_readyState_of broadcast_closed
      split: option.splits)

lemma on_ping_timer_readyState_of:
  "readyState_of s w \<noteq> OPEN \<Longrightarrow> readyState_of (on_ping_timer c fails s) w \<noteq> OPEN"
  by (auto simp add: on_ping_timer_def Let_def terminate_readyState_of split: option.splits)

lemma on_ping_timer_closed:
  "msgs_to w (trace (on_ping_timer c fails s)) = msgs_to w (trace s)"
  by (auto simp add: on_ping_timer_def Let_def terminate_trace split: option.splits)

lemma shutdown_client_trace:
  "trace (shutdown_client c s)
   = trace s @ (if readyState_of s c = OPEN
                then [Send c (SYSTEM ''Server is shutting down...''),
                      CloseWs c 1000 ''Server shutdown'']
                else [])"
  by (simp add: shutdown_client_def ws_close_trace ws_send_trace)

lemma shutdown_client_readyState_of:
  "readyState_of (shutdown_client c s) c'
   = (if c' = c \<and> readyState_of s c = OPEN then CLOSING else readyState_of s c')"
  by (simp add: shutdown_client_def ws_close_readyState_of)

lemma shutdown_closed:
  assumes "readyState_of s w \<noteq> OPEN"
  shows "readyState_of (shutdown s) w \<noteq> OPEN \<and> msgs_to w (trace (shutdown s)) = msgs_to w (trace s)"
proof -
  let ?P = "\<lambda>t. readyState_of t w \<noteq> OPEN \<and> msgs_to w (trace t) = msgs_to w (trace s)"
  have "?P (fold shutdown_client (wss_clients s) s)"
  proof (rule fold_pres [where P = ?P])
    show "?P s" using assms by simp
  next
    fix c t
    assume "?P t"
    then show "?P (shutdown_client c t)"
      by (auto simp add: shutdown_client_trace shutdown_client_readyState_of)
  qed
  then show ?thesis
    by (simp add: shutdown_def Let_def)
qed

lemma evicted_step:
  assumes "evicted w ms s"
  shows "evicted w ms (step s e)"
proof -
  from assms have a: "w < next_ws s" "readyState_of s w \<noteq> OPEN" "map_of (clients s) w = None"
    "msgs_to w (trace s) = ms"
    by (simp_all add: evicted_def)
  show ?thesis
  proof (cases e)
    case (Connection uuid addr now)
    have "filter (\<lambda>c. c = w) (filter (\<lambda>c. c \<noteq> next_ws s \<and> readyState_of s c = OPEN) (wss_clients s)) = []"
      using a(2) by (auto simp add: filter_empty_conv)
    then show ?thesis
      using a Connection
      by (simp add: evicted_def on_connection_trace msgs_to_map_Send readyState_of_def
          AList.update_conv)
  next
    case (Message c p now)
    then show ?thesis
      using a by (simp add: evicted_def on_message_closed on_message_lookup_None readyState_of_def)
  next
    case (Pong c now)
    then show ?thesis
      using a by (simp add: evicted_def on_pong_def map_of_map_entry_None readyState_of_def)
  next
    case (Close c)
    then show ?thesis
      using a by (simp add: evicted_def on_close_readyState_of on_close_closed map_of_delete_None)
  next
    case (Error c)
    then show ?thesis
      using a by (simp add: evicted_def)
  next
    case (PingTimer c fails)
    then show ?thesis
      using a by (simp add: evicted_def on_ping_timer_readyState_of on_ping_timer_closed)
  next
    case (Sweep now)
    then show ?thesis
      using a
      by (simp add: evicted_def sweep_readyState_of sweep_trace)
        (simp add: sweep_def sweep_fold_clients map_of_filter_None)
  next
    case Shutdown
    then show ?thesis
      using a shutdown_closed [of s w] by (simp add: evicted_def)
  next
    case ServerClosed
    then show ?thesis
      using a by (simp add: evicted_def)
  next
    case ForceTimeout
    then show ?thesis
      using a by (simp add: evicted_def console_error_def readyState_of_def)
  qed
qed

lemma evicted_run: "evicted w ms s \<Longrightarrow> evicted w ms (run s evs)"
  by (induction evs arbitrary: s) (simp_all add: evicted_step)

section \<open>Shutdown\<close>

lemma shutdown_fold_trace:
  "distinct cs \<Longrightarrow>
   trace (fold shutdown_client cs s)
   = trace s @ concat (map (\<lambda>c. [Send c shutdown_notice, CloseWs c 1000 ''Server shutdown''])
                         (filter (\<lambda>c. readyState_of s c = OPEN) cs))"
proof (induction cs arbitrary: s)
  case Nil
  show ?case by simp
next
  case (Cons c cs)
  from Cons.prems have d: "distinct cs" and n: "c \<notin> set cs"
    by simp_all
  have f: "filter (\<lambda>c'. readyState_of (shutdown_client c s) c' = OPEN) cs
         = filter (\<lambda>c'. readyState_of s c' = OPEN) cs"
    using n by (intro filter_cong) (auto simp add: shutdown_client_readyState_of)
  show ?case
    by (simp add: Cons.IH [OF d] f shutdown_client_trace shutdown_notice_def)
qed

lemma shutdown_fold_readyState_of:
  "readyState_of (fold shutdown_client cs s) c
   = (if c \<in> set cs \<and> readyState_of s c = OPEN then CLOSING else readyState_of s c)"
proof (induction cs arbitrary: s)
  case Nil
  show ?case by simp
next
  case (Cons a cs)
  show ?case
    by (auto simp add: Cons.IH shutdown_client_readyState_of)
qed

lemma msgs_to_notices:
  "distinct cs \<Longrightarrow>
   msgs_to c (concat (map (\<lambda>c. [Send c m, CloseWs c n r]) cs)) = (if c \<in> set cs then [m] else [])"
  by (induction cs) auto

lemma shutdown_trace:
  "distinct (wss_clients s) \<Longrightarrow>
   trace (shutdown s)
   = trace s @ concat (map (\<lambda>c. [Send c shutdown_notice, CloseWs c 1000 ''Server shutdown''])
                         (filter (\<lambda>c. readyState_of s c = OPEN) (wss_clients s)))
     @ [ServerClose, SetTimeout 5000]"
  by (simp add: shutdown_def Let_def shutdown_fold_trace)

lemma shutdown_readyState_of:
  "readyState_of (shutdown s) c = (if live s c then CLOSING else readyState_of s c)"
  by (simp add: shutdown_def Let_def shutdown_fold_readyState_of live_def)

lemma step_closing: "closing s \<Longrightarrow> closing (step s e)"
  by (cases e) (simp_all add: console_error_def)

lemma step_force_timer: "force_timer s \<Longrightarrow> force_timer (step s e)"
  by (cases e) (simp_all add: console_error_def)

lemma run_closing: "closing s \<Longrightarrow> closing (run s evs)"
  by (induction evs arbitrary: s) (simp_all add: step_closing)

lemma run_force_timer: "force_timer s \<Longrightarrow> force_timer (run s evs)"
  by (induction evs arbitrary: s) (simp_all add: step_force_timer)

lemma run_exited: "exit_code s \<noteq> None \<Longrightarrow> run s evs = s"
  by (cases evs) simp_all

section \<open>Reachable states\<close>

lemma keys_update: "set (map fst (AList.update k v al)) = insert k (set (map fst al))"
  by (simp add: AList.dom_update)

lemma sweep_clients_filter:
  "clients (sweep now s)
   = filter (\<lambda>e'. fst e' \<notin> fst ` set (filter (stale now) (clients s))) (clients s)"
  by (simp add: sweep_def sweep_fold_clients)

lemma wf_state_step:
  assumes "wf_state s"
  shows "wf_state (step s e)"
proof -
  from assms have d: "distinct (wss_clients s)" "distinct (map fst (clients s))"
    and b: "\<forall>w \<in> set (wss_clients s). w < next_ws s"
           "\<forall>w \<in> fst ` set (clients s). w < next_ws s"
    by (simp_all add: wf_state_def list_all_iff)
  from b(2) have b2: "\<forall>w \<in> set (map fst (clients s)). w < next_ws s"
    by simp
  show ?thesis
  proof (cases e)
    case (Connection uuid addr now)
    then show ?thesis
      using d b(1) b2
      by (auto simp add: wf_state_def list_all_iff AList.distinct_update keys_update
          simp del: set_map)
  next
    case (Message w p now)
    then show ?thesis
      using assms by (simp add: wf_state_def on_message_keys)
  next
    case (Pong w now)
    then show ?thesis
      using assms by (simp add: wf_state_def)
  next
    case (Close w)
    then show ?thesis
      using d b
      by (auto simp add: wf_state_def list_all_iff AList.delete_eq distinct_removeAll
          distinct_map_filter)
  next
    case (Sweep now)
    then show ?thesis
      using d b
      by (auto simp add: wf_state_def list_all_iff sweep_clients_filter distinct_map_filter)
  qed (use assms in \<open>simp_all add: wf_state_def console_error_def\<close>)
qed

lemma wf_state_run: "wf_state s \<Longrightarrow> wf_state (run s evs)"
  by (induction evs arbitrary: s) (simp_all add: wf_state_step)

lemma wf_state_init: "wf_state init_state"
  by (simp add: wf_state_def init_state_def)

lemma reachable_wf_state: "wf_state (run init_state evs)"
  by (rule wf_state_run) (rule wf_state_init)

lemma reachable_distinct:
  "distinct (wss_clients (run init_state evs))"
  "distinct (map fst (clients (run init_state evs)))"
  using reachable_wf_state [of evs] by (simp_all add: wf_state_def)

lemma reachable_allocated:
  "map_of (clients (run init_state evs)) w = Some i \<Longrightarrow> w < next_ws (run init_state evs)"
  using reachable_wf_state [of evs]
  by (auto simp add: wf_state_def list_all_iff dest!: map_of_SomeD)

section \<open>More about the example states\<close>

lemma one_drawn_eval:
  "drawingHistory one_drawn = [[(''x'', JNum 1), (''clientId'', JStr ''A''), (''timestamp'', JNum 2000)]]"
  "next_ws one_drawn = 1"
  by (simp_all add: one_drawn_def handler_defs Let_def mk_action_def own_props_def)

lemma three_live_regs:
  "map_of (clients three_live) 0
     = Some \<lparr>id_info = ''A'', ip = ''10.0.0.1'', connectedAt = 1000, lastActivity = 1000,
             lastPong = None\<rparr>"
  "map_of (clients three_live) 2
     = Some \<lparr>id_info = ''C'', ip = ''10.0.0.3'', connectedAt = 3000, lastActivity = 3000,
             lastPong = None\<rparr>"
  "distinct (map fst (clients three_live))"
  "next_ws three_live = 3"
  "exit_code three_live = None"
  by (simp_all add: three_live_eval)

section \<open>The calls of the handshake callback\<close>

lemma verifyClient_calls:
  "verifyClient origin =
     (if falsy origin \<or> includes_str allowedOrigins origin
      then [Accept, Accept]
      else [Reject 401 ''Unauthorized origin'', Accept])"
  by (simp add: verifyClient_def)

lemma verifyClient_ends_with_accept: "last (verifyClient origin) = Accept"
  by (simp add: verifyClient_def)

lemma appended_draws:
  "map_of (socks s) 0 = Some k \<Longrightarrow> exit_code s = None \<Longrightarrow>
   appended s (map draw_event ns) = map (draw_action (clientId k)) ns"
proof (induction ns arbitrary: s)
  case Nil
  show ?case by simp
next
  case (Cons n ns)
  have a: "appended_by s (draw_event n) = [draw_action (clientId k) n]"
    using Cons.prems(1) by (simp add: draw_event_def draw_action_def mk_action_def own_props_def)
  have s: "map_of (socks (step s (draw_event n))) 0 = Some k"
    using Cons.prems(1) by (simp add: draw_event_def)
  have x: "exit_code (step s (draw_event n)) = None"
    using Cons.prems(2) by (simp add: draw_event_def)
  show ?case
    using Cons.prems(2) by (simp add: a Cons.IH [OF s x])
qed

section \<open>The handshake\<close>


lemma handleUpgrade_disallowed:
  assumes "\<not> (falsy origin \<or> includes_str allowedOrigins origin)"
  shows "handleUpgrade origin uuid addr now s
         = (\<lparr>writable = False, kWebSocket = False, response = Some (401, ''Unauthorized origin'')\<rparr>,
            s)"
  using assms
  by (simp add: handleUpgrade_def verifyClient_calls done_cb_def completeUpgrade_def
      abortHandshake_def)

section \<open>The action and the buffer after a draw\<close>

lemma update_fresh: "k \<notin> fst ` set al \<Longrightarrow> AList.update k v al = al @ [(k, v)]"
  by (induction al) auto

lemma fold_update_distinct:
  "distinct (map fst (al @ ps)) \<Longrightarrow> fold (\<lambda>(k, v). AList.update k v) ps al = al @ ps"
proof (induction ps arbitrary: al)
  case Nil
  show ?case by simp
next
  case (Cons p ps)
  obtain k v where p: "p = (k, v)" by (cases p)
  from Cons.prems have fresh: "k \<notin> fst ` set al"
    by (auto simp add: p)
  from Cons.prems have d: "distinct (map fst ((al @ [(k, v)]) @ ps))"
    by (auto simp add: p)
  show ?case
    using Cons.IH [OF d] by (simp add: p update_fresh [OF fresh])
qed

lemma map_of_fold_update:
  "map_of (fold (\<lambda>(k, v). AList.update k v) ps al) key
   = (case map_of (rev ps) key of Some v \<Rightarrow> Some v | None \<Rightarrow> map_of al key)"
proof (induction ps arbitrary: al)
  case Nil
  show ?case by simp
next
  case (Cons p ps)
  obtain k v where p: "p = (k, v)" by (cases p)
  show ?case
    by (simp add: p Cons.IH AList.update_conv' map_add_def split: option.splits)
qed

lemma mk_action_other_keys:
  assumes "key \<noteq> ''clientId''" and "key \<noteq> ''timestamp''"
  shows "map_of (mk_action d cid now) key = map_of (rev (own_props d)) key"
  using assms
  by (simp add: mk_action_def AList.update_conv' map_of_fold_update split: option.splits)

lemma mk_action_object:
  assumes "distinct (map fst props)"
  shows "mk_action (Some (JObj props)) cid now
         = AList.update ''timestamp'' (JNum (of_int now))
             (AList.update ''clientId'' (JStr cid) props)"
  using fold_update_distinct [of "[]" props] assms
  by (simp add: mk_action_def own_props_def)

lemma mk_action_object_fresh:
  assumes "distinct (map fst props)"
    and "''clientId'' \<notin> set (map fst props)" and "''timestamp'' \<notin> set (map fst props)"
  shows "mk_action (Some (JObj props)) cid now
         = props @ [(''clientId'', JStr cid), (''timestamp'', JNum (of_int now))]"
proof -
  have 1: "AList.update ''clientId'' (JStr cid) props = props @ [(''clientId'', JStr cid)]"
    using assms(2) by (intro update_fresh) simp
  have 2: "AList.update ''timestamp'' (JNum (of_int now)) (props @ [(''clientId'', JStr cid)])
           = (props @ [(''clientId'', JStr cid)]) @ [(''timestamp'', JNum (of_int now))]"
    using assms(3) by (intro update_fresh) simp
  show ?thesis
    by (simp add: mk_action_object [OF assms(1)] 1 2)
qed

lemma mk_action_array:
  "mk_action (Some (JArr xs)) cid now
   = AList.update ''timestamp'' (JNum (of_int now))
       (AList.update ''clientId'' (JStr cid)
          (fold (\<lambda>(k, v). AList.update k v) (zip (map dec [0..<length xs]) xs) []))"
  by (simp add: mk_action_def own_props_def)

lemma mk_action_string:
  "mk_action (Some (JStr str)) cid now
   = AList.update ''timestamp'' (JNum (of_int now))
       (AList.update ''clientId'' (JStr cid)
          (fold (\<lambda>(k, v). AList.update k v)
             (zip (map dec [0..<length str]) (map (\<lambda>c. JStr [c]) str)) []))"
  by (simp add: mk_action_def own_props_def)

lemma mk_action_no_props:
  assumes "d = None \<or> d = Some JNull \<or> (\<exists>b. d = Some (JBool b)) \<or> (\<exists>x. d = Some (JNum x))"
  shows "mk_action d cid now = [(''clientId'', JStr cid), (''timestamp'', JNum (of_int now))]"
  using assms by (auto simp add: mk_action_def own_props_def)

lemma push_history_explicit:
  "push_history h a = (if 100 \<le> length h then tl h @ [a] else h @ [a])"
  by (cases h) (auto simp add: push_history_def MAX_HISTORY_def Let_def)

lemma push_history_last_100:
  "length h \<le> 100 \<Longrightarrow> push_history h a = drop (length (h @ [a]) - 100) (h @ [a])"
  using push_history_lastn [of h a] by (simp add: lastn_def MAX_HISTORY_def)

lemma one_drawn_sock0:
  "map_of (socks one_drawn) 0 = Some \<lparr>readyState = OPEN, clientId = ''A'', pingInterval = True\<rparr>"
  "distinct (wss_clients one_drawn)"
  by (simp_all add: one_drawn_def init_state_def)

section \<open>The claims\<close>

subsection \<open>The origin check\<close>


subsection \<open>The history buffer\<close>

text \<open>
  Claim C1. Whatever events the server processes from its start, \<^verbatim>\<open>drawingHistory\<close>
  never holds more than 100 actions, and it holds exactly the last 100 of the actions
  appended so far (all of them while there are fewer), in the order of their insertion.
  So an append to a full buffer evicts the oldest entry, and no handler other than the
  \<^verbatim>\<open>DRAW\<close> branch changes the buffer.
\<close>

theorem history_is_last_100_appended:
  "drawingHistory (run init_state evs)
     = drop (length (appended init_state evs) - 100) (appended init_state evs)
   \<and> length (drawingHistory (run init_state evs)) \<le> 100"
proof -
  have "length (drawingHistory init_state) \<le> MAX_HISTORY"
    by (simp add: init_state_def)
  from run_history_lastn [OF this, of evs]
  have "drawingHistory (run init_state evs) = lastn MAX_HISTORY (appended init_state evs)"
    by (simp add: init_state_def)
  then show ?thesis
    by (simp add: lastn_def MAX_HISTORY_def)
qed


text \<open>
  An example with an eviction: one peer connects and draws 101 times; the buffer holds
  the actions 2 to 101, the first one is gone.
\<close>

theorem history_is_last_100_appended_witness:
  "drawingHistory (run init_state (Connection ''A'' ''10.0.0.1'' 0 # map draw_event [1..<102]))
   = map (draw_action ''A'') [2..<102]"
proof -
  let ?s1 = "step init_state (Connection ''A'' ''10.0.0.1'' 0)"
  have k: "map_of (socks ?s1) 0 = Some \<lparr>readyState = OPEN, clientId = ''A'', pingInterval = True\<rparr>"
    by (simp add: init_state_def)
  have x: "exit_code ?s1 = None"
    by (simp add: init_state_def)
  have a: "appended init_state (Connection ''A'' ''10.0.0.1'' 0 # map draw_event [1..<102])
           = map (draw_action ''A'') [1..<102]"
    using appended_draws [OF k x, of "[1..<102]"] by (simp add: init_state_def)
  have d: "drop (length (map (draw_action ''A'') [1..<102]) - 100) (map (draw_action ''A'') [1..<102])
           = map (draw_action ''A'') [2..<102]"
  proof -
    have "drop (length (map (draw_action ''A'') [1..<102]) - 100) (map (draw_action ''A'') [1..<102])
          = map (draw_action ''A'') [1 + (length (map (draw_action ''A'') [1..<102]) - 100)..<102]"
      by (simp only: drop_map drop_upt)
    also have "1 + (length (map (draw_action ''A'') [1..<102]) - 100) = (2::nat)"
      by simp
    finally show ?thesis .
  qed
  show ?thesis
    using history_is_last_100_appended [of "Connection ''A'' ''10.0.0.1'' 0 # map draw_event [1..<102]"]
    by (simp only: a d)
qed

subsection \<open>Routing of the messages\<close>

text \<open>
  Claim C3. A message whose \<^verbatim>\<open>type\<close> is \<^verbatim>\<open>DRAW\<close>, from a socket \<open>w\<close> with a
  handler. The action: it carries the sender's \<^verbatim>\<open>clientId\<close> and the server's clock as
  \<^verbatim>\<open>timestamp\<close> (also when the payload brings properties of these names), and under
  every other key what the payload has there; for a payload object it is the payload's
  properties with the two stamps written over them or added at the end, for an array or
  a string the indexed elements with the stamps, and for a payload that is absent,
  \<^verbatim>\<open>null\<close>, a boolean or a number the two stamps alone. The buffer: the action is
  put at the end, after the first entry has been dropped when there were 100 already, so
  that a buffer within its bound becomes the last 100 of the old entries and the action.
  The broadcast is issued in the state whose history already ends with the action; the
  new effects are one \<^verbatim>\<open>DRAW\<close> frame for every open member of \<^verbatim>\<open>wss.clients\<close> other
  than \<open>w\<close>, in that order, so every live connection but the sender receives exactly
  that frame and the sender receives nothing.
\<close>

theorem draw_appended_then_relayed_to_others:
  assumes sock: "map_of (socks s) w = Some k"
    and ty: "map_of kvs ''type'' = Some (JStr ''DRAW'')"
    and dist: "distinct (wss_clients s)"
    and a: "a = mk_action (map_of kvs ''data'') (clientId k) now"
    and s': "s' = step s (Message w (Parsed (JObj kvs)) now)"
  shows "map_of a ''clientId'' = Some (JStr (clientId k))
       \<and> map_of a ''timestamp'' = Some (JNum (of_int now))
       \<and> s' = broadcastMessage (DRAW a) (Some w)
                ((touch w now s)\<lparr>drawingHistory := push_history (drawingHistory s) a\<rparr>)
       \<and> drawingHistory s' = push_history (drawingHistory s) a
       \<and> last (drawingHistory s') = a
       \<and> trace s' = trace s @ map (\<lambda>c. Send c (DRAW a))
                                 (filter (\<lambda>c. c \<noteq> w \<and> readyState_of s c = OPEN) (wss_clients s))
       \<and> (\<forall>c. msgs_to c (drop (length (trace s)) (trace s'))
                = (if live s c \<and> c \<noteq> w then [DRAW a] else []))
       \<and> drawingHistory s'
           = (if 100 \<le> length (drawingHistory s) then tl (drawingHistory s) @ [a]
              else drawingHistory s @ [a])
       \<and> (length (drawingHistory s) \<le> 100 \<longrightarrow>
            drawingHistory s'
            = drop (length (drawingHistory s @ [a]) - 100) (drawingHistory s @ [a]))
       \<and> (\<forall>key. key \<noteq> ''clientId'' \<longrightarrow> key \<noteq> ''timestamp'' \<longrightarrow>
            map_of a key = map_of (rev (own_props (map_of kvs ''data''))) key)
       \<and> (\<forall>props. map_of kvs ''data'' = Some (JObj props) \<longrightarrow> distinct (map fst props) \<longrightarrow>
            a = AList.update ''timestamp'' (JNum (of_int now))
                  (AList.update ''clientId'' (JStr (clientId k)) props))
       \<and> (\<forall>props. map_of kvs ''data'' = Some (JObj props) \<longrightarrow> distinct (map fst props) \<longrightarrow>
            ''clientId'' \<notin> set (map fst props) \<longrightarrow> ''timestamp'' \<notin> set (map fst props) \<longrightarrow>
            a = props @ [(''clientId'', JStr (clientId k)), (''timestamp'', JNum (of_int now))])
       \<and> (\<forall>xs. map_of kvs ''data'' = Some (JArr xs) \<longrightarrow>
            a = AList.update ''timestamp'' (JNum (of_int now))
                  (AList.update ''clientId'' (JStr (clientId k))
                     (fold (\<lambda>(k, v). AList.update k v) (zip (map dec [0..<length xs]) xs) [])))
       \<and> (\<forall>str. map_of kvs ''data'' = Some (JStr str) \<longrightarrow>
            a = AList.update ''timestamp'' (JNum (of_int now))
                  (AList.update ''clientId'' (JStr (clientId k))
                     (fold (\<lambda>(k, v). AList.update k v)
                        (zip (map dec [0..<length str]) (map (\<lambda>c. JStr [c]) str)) [])))
       \<and> (map_of kvs ''data'' = None \<or> map_of kvs ''data'' = Some JNull
            \<or> (\<exists>b. map_of kvs ''data'' = Some (JBool b))
            \<or> (\<exists>x. map_of kvs ''data'' = Some (JNum x)) \<longrightarrow>
            a = [(''clientId'', JStr (clientId k)), (''timestamp'', JNum (of_int now))])"
proof -
  let ?t = "(touch w now s)\<lparr>drawingHistory := push_history (drawingHistory s) a\<rparr>"
  have eq: "s' = broadcastMessage (DRAW a) (Some w) ?t"
    using on_message_draw [OF sock ty] by (simp add: s' a)
  have rc: "recipients ?t (Some w) = recipients s (Some w)"
    by (rule recipients_cong) simp_all
  have r: "recipients s (Some w) = filter (\<lambda>c. c \<noteq> w \<and> readyState_of s c = OPEN) (wss_clients s)"
    by (simp add: recipients_def)
  have tr0: "trace s' = trace s @ map (\<lambda>c. Send c (DRAW a)) (recipients s (Some w))"
    by (simp add: eq broadcastMessage_eq rc)
  have c1: "map_of a ''clientId'' = Some (JStr (clientId k))"
    by (simp add: a mk_action_clientId)
  have c2: "map_of a ''timestamp'' = Some (JNum (of_int now))"
    by (simp add: a mk_action_timestamp)
  have c4: "drawingHistory s' = push_history (drawingHistory s) a"
    by (simp add: eq broadcastMessage_eq)
  have c5: "last (drawingHistory s') = a"
    by (simp add: c4 last_push_history)
  have c6: "trace s' = trace s @ map (\<lambda>c. Send c (DRAW a))
                                 (filter (\<lambda>c. c \<noteq> w \<and> readyState_of s c = OPEN) (wss_clients s))"
    using tr0 by (simp only: r)
  have c7: "\<forall>c. msgs_to c (drop (length (trace s)) (trace s'))
                = (if live s c \<and> c \<noteq> w then [DRAW a] else [])"
    using msgs_to_broadcast [OF dist, of _ "DRAW a" "Some w"] by (auto simp add: tr0)
  have c8: "drawingHistory s'
           = (if 100 \<le> length (drawingHistory s) then tl (drawingHistory s) @ [a]
              else drawingHistory s @ [a])"
    by (simp only: c4 push_history_explicit)
  have c9: "length (drawingHistory s) \<le> 100 \<longrightarrow>
            drawingHistory s'
            = drop (length (drawingHistory s @ [a]) - 100) (drawingHistory s @ [a])"
    by (simp only: c4) (simp add: push_history_last_100)
  have c10: "\<forall>key. key \<noteq> ''clientId'' \<longrightarrow> key \<noteq> ''timestamp'' \<longrightarrow>
            map_of a key = map_of (rev (own_props (map_of kvs ''data''))) key"
    by (simp add: a mk_action_other_keys)
  have c11: "\<forall>props. map_of kvs ''data'' = Some (JObj props) \<longrightarrow> distinct (map fst props) \<longrightarrow>
            a = AList.update ''timestamp'' (JNum (of_int now))
                  (AList.update ''clientId'' (JStr (clientId k)) props)"
    by (simp add: a mk_action_object)
  have c12: "\<forall>props. map_of kvs ''data'' = Some (JObj props) \<longrightarrow> distinct (map fst props) \<longrightarrow>
            ''clientId'' \<notin> set (map fst props) \<longrightarrow> ''timestamp'' \<notin> set (map fst props) \<longrightarrow>
            a = props @ [(''clientId'', JStr (clientId k)), (''timestamp'', JNum (of_int now))]"
    using mk_action_object_fresh by (simp add: a)
  have c13: "\<forall>xs. map_of kvs ''data'' = Some (JArr xs) \<longrightarrow>
            a = AList.update ''timestamp'' (JNum (of_int now))
                  (AList.update ''clientId'' (JStr (clientId k))
                     (fold (\<lambda>(k, v). AList.update k v) (zip (map dec [0..<length xs]) xs) []))"
    by (simp add: a mk_action_array)
  have c14: "\<forall>str. map_of kvs ''data'' = Some (JStr str) \<longrightarrow>
            a = AList.update ''timestamp'' (JNum (of_int now))
                  (AList.update ''clientId'' (JStr (clientId k))
                     (fold (\<lambda>(k, v). AList.update k v)
                        (zip (map dec [0..<length str]) (map (\<lambda>c. JStr [c]) str)) []))"
    by (simp add: a mk_action_string)
  have c15: "map_of kvs ''data'' = None \<or> map_of kvs ''data'' = Some JNull
            \<or> (\<exists>b. map_of kvs ''data'' = Some (JBool b))
            \<or> (\<exists>x. map_of kvs ''data'' = Some (JNum x)) \<longrightarrow>
            a = [(''clientId'', JStr (clientId k)), (''timestamp'', JNum (of_int now))]"
    using mk_action_no_props [of "map_of kvs ''data''" "clientId k" now] by (simp add: a)
  show ?thesis
    using c1 c2 eq c4 c5 c6 c7 c8 c9 c10 c11 c12 c13 c14 c15 by (intro conjI)
qed

text \<open>
  With A, B and C live and A drawing, B and C receive the frame and A does not. And when
  A, who has drawn before, draws again, the buffer holds both actions in order.
\<close>

theorem draw_appended_then_relayed_to_others_witness:
  "msgs_to 0 (drop (length (trace three_live)) (trace (step three_live
       (Message 0 (Parsed (JObj [(''type'', JStr ''DRAW''), (''data'', JObj [(''x'', JNum 1)])])) 4000)))) = []
   \<and> msgs_to 1 (drop (length (trace three_live)) (trace (step three_live
       (Message 0 (Parsed (JObj [(''type'', JStr ''DRAW''), (''data'', JObj [(''x'', JNum 1)])])) 4000))))
     = [DRAW [(''x'', JNum 1), (''clientId'', JStr ''A''), (''timestamp'', JNum 4000)]]
   \<and> msgs_to 2 (drop (length (trace three_live)) (trace (step three_live
       (Message 0 (Parsed (JObj [(''type'', JStr ''DRAW''), (''data'', JObj [(''x'', JNum 1)])])) 4000))))
     = [DRAW [(''x'', JNum 1), (''clientId'', JStr ''A''), (''timestamp'', JNum 4000)]]
   \<and> drawingHistory (step three_live
       (Message 0 (Parsed (JObj [(''type'', JStr ''DRAW''), (''data'', JObj [(''x'', JNum 1)])])) 4000))
     = [[(''x'', JNum 1), (''clientId'', JStr ''A''), (''timestamp'', JNum 4000)]]
   \<and> drawingHistory (step one_drawn
       (Message 0 (Parsed (JObj [(''type'', JStr ''DRAW''), (''data'', JObj [(''x'', JNum 2)])])) 3000))
     = [[(''x'', JNum 1), (''clientId'', JStr ''A''), (''timestamp'', JNum 2000)],
        [(''x'', JNum 2), (''clientId'', JStr ''A''), (''timestamp'', JNum 3000)]]"
proof -
  let ?kvs = "[(''type'', JStr ''DRAW''), (''data'', JObj [(''x'', JNum 1)])]"
  let ?a = "mk_action (map_of ?kvs ''data'') ''A'' 4000"
  let ?s' = "step three_live (Message 0 (Parsed (JObj ?kvs)) 4000)"
  let ?new = "drop (length (trace three_live)) (trace ?s')"
  let ?kvs2 = "[(''type'', JStr ''DRAW''), (''data'', JObj [(''x'', JNum 2)])]"
  let ?a2 = "mk_action (map_of ?kvs2 ''data'') ''A'' 3000"
  let ?s2 = "step one_drawn (Message 0 (Parsed (JObj ?kvs2)) 3000)"
  have ty: "map_of ?kvs ''type'' = Some (JStr ''DRAW'')"
    by simp
  have ty2: "map_of ?kvs2 ''type'' = Some (JStr ''DRAW'')"
    by simp
  note t = draw_appended_then_relayed_to_others [OF three_live_sock0 ty three_live_distinct refl refl, of 4000,
      unfolded socket.select_convs]
  note u = draw_appended_then_relayed_to_others [OF one_drawn_sock0(1) ty2 one_drawn_sock0(2) refl refl, of 3000,
      unfolded socket.select_convs]
  from t have m: "\<forall>c. msgs_to c ?new = (if live three_live c \<and> c \<noteq> 0 then [DRAW ?a] else [])"
    by (elim conjE)
  from t have h: "drawingHistory ?s'
      = (if 100 \<le> length (drawingHistory three_live) then tl (drawingHistory three_live) @ [?a]
         else drawingHistory three_live @ [?a])"
    by (elim conjE)
  from t have "\<forall>props. map_of ?kvs ''data'' = Some (JObj props) \<longrightarrow> distinct (map fst props) \<longrightarrow>
            ''clientId'' \<notin> set (map fst props) \<longrightarrow> ''timestamp'' \<notin> set (map fst props) \<longrightarrow>
            ?a = props @ [(''clientId'', JStr ''A''), (''timestamp'', JNum (of_int (4000::int)))]"
    by (elim conjE)
  then have "map_of ?kvs ''data'' = Some (JObj [(''x'', JNum 1)]) \<longrightarrow> distinct (map fst [(''x'', JNum 1)]) \<longrightarrow>
            ''clientId'' \<notin> set (map fst [(''x'', JNum 1)]) \<longrightarrow> ''timestamp'' \<notin> set (map fst [(''x'', JNum 1)]) \<longrightarrow>
            ?a = [(''x'', JNum 1)] @ [(''clientId'', JStr ''A''), (''timestamp'', JNum (of_int (4000::int)))]"
    by (rule spec)
  then have a: "?a = [(''x'', JNum 1), (''clientId'', JStr ''A''), (''timestamp'', JNum 4000)]"
    by simp
  from u have h2: "drawingHistory ?s2
      = (if 100 \<le> length (drawingHistory one_drawn) then tl (drawingHistory one_drawn) @ [?a2]
         else drawingHistory one_drawn @ [?a2])"
    by (elim conjE)
  from u have "\<forall>props. map_of ?kvs2 ''data'' = Some (JObj props) \<longrightarrow> distinct (map fst props) \<longrightarrow>
            ''clientId'' \<notin> set (map fst props) \<longrightarrow> ''timestamp'' \<notin> set (map fst props) \<longrightarrow>
            ?a2 = props @ [(''clientId'', JStr ''A''), (''timestamp'', JNum (of_int (3000::int)))]"
    by (elim conjE)
  then have "map_of ?kvs2 ''data'' = Some (JObj [(''x'', JNum 2)]) \<longrightarrow> distinct (map fst [(''x'', JNum 2)]) \<longrightarrow>
            ''clientId'' \<notin> set (map fst [(''x'', JNum 2)]) \<longrightarrow> ''timestamp'' \<notin> set (map fst [(''x'', JNum 2)]) \<longrightarrow>
            ?a2 = [(''x'', JNum 2)] @ [(''clientId'', JStr ''A''), (''timestamp'', JNum (of_int (3000::int)))]"
    by (rule spec)
  then have a2: "?a2 = [(''x'', JNum 2), (''clientId'', JStr ''A''), (''timestamp'', JNum 3000)]"
    by simp
  have e: "drawingHistory three_live = []"
    by (simp add: three_live_eval)
  have "msgs_to 0 ?new = []" "msgs_to 1 ?new = [DRAW ?a]" "msgs_to 2 ?new = [DRAW ?a]"
    using m three_live_live by simp_all
  moreover have "drawingHistory ?s' = [?a]"
    using h by (simp only: e) simp
  moreover have "drawingHistory ?s2
     = [[(''x'', JNum 1), (''clientId'', JStr ''A''), (''timestamp'', JNum 2000)], ?a2]"
    using h2 by (simp only: one_drawn_eval) simp
  ultimately show ?thesis
    unfolding a a2 by (intro conjI)
qed

text \<open>
  Claim C4. A message whose \<^verbatim>\<open>type\<close> is \<^verbatim>\<open>CHAT\<close> and whose \<^verbatim>\<open>Name\<close> and
  \<^verbatim>\<open>res\<close> can be written to the log: the pair is sent to every open member of
  \<^verbatim>\<open>wss.clients\<close>, the sender included when it is live, and the history is unchanged.
\<close>

theorem chat_relayed_to_all:
  assumes sock: "map_of (socks s) w = Some k"
    and ty: "map_of kvs ''type'' = Some (JStr ''CHAT'')"
    and name: "\<not> template_throws (map_of kvs ''Name'')"
    and res: "\<not> template_throws (map_of kvs ''res'')"
    and dist: "distinct (wss_clients s)"
    and m: "m = CHAT (map_of kvs ''Name'') (map_of kvs ''res'')"
    and s': "s' = step s (Message w (Parsed (JObj kvs)) now)"
  shows "s' = broadcastMessage m None (touch w now s)
       \<and> trace s' = trace s @ map (\<lambda>c. Send c m)
                                 (filter (\<lambda>c. readyState_of s c = OPEN) (wss_clients s))
       \<and> (\<forall>c. msgs_to c (drop (length (trace s)) (trace s')) = (if live s c then [m] else []))
       \<and> drawingHistory s' = drawingHistory s"
proof -
  have eq: "s' = broadcastMessage m None (touch w now s)"
    using on_message_chat [OF sock ty name res] by (simp add: s' m)
  have rc: "recipients (touch w now s) None = recipients s None"
    by (rule recipients_cong) simp_all
  have tr: "trace s' = trace s @ map (\<lambda>c. Send c m) (recipients s None)"
    by (simp add: eq broadcastMessage_eq rc)
  have ms: "\<forall>c. msgs_to c (drop (length (trace s)) (trace s')) = (if live s c then [m] else [])"
    using msgs_to_broadcast [OF dist, of _ m None] by (auto simp add: tr)
  have r: "recipients s None = filter (\<lambda>c. readyState_of s c = OPEN) (wss_clients s)"
    by (simp add: recipients_def)
  show ?thesis
    using eq tr ms by (simp add: r broadcastMessage_eq)
qed


text \<open>With A, B and C live and A chatting, all three receive the frame.\<close>

theorem chat_relayed_to_all_witness:
  "msgs_to 0 (drop (length (trace three_live)) (trace (step three_live
       (Message 0 (Parsed (JObj [(''type'', JStr ''CHAT''), (''Name'', JStr ''Ann''),
                                 (''res'', JStr ''hi'')])) 4000))))
     = [CHAT (Some (JStr ''Ann'')) (Some (JStr ''hi''))]
   \<and> msgs_to 1 (drop (length (trace three_live)) (trace (step three_live
       (Message 0 (Parsed (JObj [(''type'', JStr ''CHAT''), (''Name'', JStr ''Ann''),
                                 (''res'', JStr ''hi'')])) 4000))))
     = [CHAT (Some (JStr ''Ann'')) (Some (JStr ''hi''))]
   \<and> msgs_to 2 (drop (length (trace three_live)) (trace (step three_live
       (Message 0 (Parsed (JObj [(''type'', JStr ''CHAT''), (''Name'', JStr ''Ann''),
                                 (''res'', JStr ''hi'')])) 4000))))
     = [CHAT (Some (JStr ''Ann'')) (Some (JStr ''hi''))]
   \<and> drawingHistory (step three_live
       (Message 0 (Parsed (JObj [(''type'', JStr ''CHAT''), (''Name'', JStr ''Ann''),
                                 (''res'', JStr ''hi'')])) 4000))
     = drawingHistory three_live"
proof -
  let ?kvs = "[(''type'', JStr ''CHAT''), (''Name'', JStr ''Ann''), (''res'', JStr ''hi'')]"
  let ?m = "CHAT (map_of ?kvs ''Name'') (map_of ?kvs ''res'')"
  let ?s' = "step three_live (Message 0 (Parsed (JObj ?kvs)) 4000)"
  let ?new = "drop (length (trace three_live)) (trace ?s')"
  have ty: "map_of ?kvs ''type'' = Some (JStr ''CHAT'')"
    by simp
  have name: "\<not> template_throws (map_of ?kvs ''Name'')"
    by (simp add: template_throws_def)
  have res: "\<not> template_throws (map_of ?kvs ''res'')"
    by (simp add: template_throws_def)
  have m: "?m = CHAT (Some (JStr ''Ann'')) (Some (JStr ''hi''))"
    by simp
  note t = chat_relayed_to_all [OF three_live_sock0 ty name res three_live_distinct refl refl,
      of 4000]
  from t have a: "\<forall>c. msgs_to c ?new = (if live three_live c then [?m] else [])"
    by (elim conjE)
  from t have d: "drawingHistory ?s' = drawingHistory three_live"
    by (elim conjE)
  have "msgs_to 0 ?new = [?m]" "msgs_to 1 ?new = [?m]" "msgs_to 2 ?new = [?m]"
    using a three_live_live by simp_all
  then show ?thesis
    using d unfolding m by (intro conjI)
qed


text \<open>
  Claim C6. A message whose \<^verbatim>\<open>type\<close> is \<^verbatim>\<open>PING\<close>, from an open socket \<open>w\<close>: the
  only new effect is one \<^verbatim>\<open>PONG\<close> frame with the current time, sent to \<open>w\<close>; no
  other socket receives anything and the history is unchanged.
\<close>

theorem ping_answered_by_one_pong:
  assumes sock: "map_of (socks s) w = Some k"
    and opn: "readyState k = OPEN"
    and ty: "map_of kvs ''type'' = Some (JStr ''PING'')"
    and s': "s' = step s (Message w (Parsed (JObj kvs)) now)"
  shows "s' = (touch w now s)\<lparr>trace := trace s @ [Send w (PONG now)]\<rparr>
       \<and> msgs_to w (drop (length (trace s)) (trace s')) = [PONG now]
       \<and> (\<forall>c. c \<noteq> w \<longrightarrow> msgs_to c (drop (length (trace s)) (trace s')) = [])
       \<and> drawingHistory s' = drawingHistory s"
proof -
  have o: "readyState_of (touch w now s) w = OPEN"
    using sock opn by (simp add: readyState_of_def)
  have eq: "s' = (touch w now s)\<lparr>trace := trace s @ [Send w (PONG now)]\<rparr>"
    using sock ty o
    by (simp add: s' on_message_def try_block_def dispatch_def get_prop_def template_throws_def
        Let_def ws_send_def)
  show ?thesis
    by (simp add: eq)
qed


text \<open>With A, B and C live and A pinging, A receives the one reply.\<close>

theorem ping_answered_by_one_pong_witness:
  "msgs_to 0 (drop (length (trace three_live)) (trace (step three_live
       (Message 0 (Parsed (JObj [(''type'', JStr ''PING'')])) 4000)))) = [PONG 4000]
   \<and> msgs_to 1 (drop (length (trace three_live)) (trace (step three_live
       (Message 0 (Parsed (JObj [(''type'', JStr ''PING'')])) 4000)))) = []
   \<and> msgs_to 2 (drop (length (trace three_live)) (trace (step three_live
       (Message 0 (Parsed (JObj [(''type'', JStr ''PING'')])) 4000)))) = []
   \<and> drawingHistory (step three_live (Message 0 (Parsed (JObj [(''type'', JStr ''PING'')])) 4000))
     = drawingHistory three_live"
proof -
  let ?kvs = "[(''type'', JStr ''PING'')]"
  let ?s' = "step three_live (Message 0 (Parsed (JObj ?kvs)) 4000)"
  let ?new = "drop (length (trace three_live)) (trace ?s')"
  have ty: "map_of ?kvs ''type'' = Some (JStr ''PING'')"
    by simp
  have opn: "readyState \<lparr>readyState = OPEN, clientId = ''A'', pingInterval = True\<rparr> = OPEN"
    by simp
  note t = ping_answered_by_one_pong [OF three_live_sock0 opn ty refl, of 4000]
  from t have a: "msgs_to 0 ?new = [PONG 4000]"
    by (elim conjE)
  from t have b: "\<forall>c. c \<noteq> 0 \<longrightarrow> msgs_to c ?new = []"
    by (elim conjE)
  from t have d: "drawingHistory ?s' = drawingHistory three_live"
    by (elim conjE)
  have "msgs_to 1 ?new = []" "msgs_to 2 ?new = []"
    using b by simp_all
  then show ?thesis
    using a d by (intro conjI)
qed


subsection \<open>Messages that do not parse\<close>

text \<open>
  Claim C9. A frame on which \<^verbatim>\<open>JSON.parse\<close> throws: the handler logs the error and
  does nothing else after the activity stamp. Nothing is sent or broadcast, the history
  is unchanged, and the sockets, \<^verbatim>\<open>wss.clients\<close> and the keys of the registry are as
  before, so the sender stays open and registered.
\<close>

theorem unparsable_message_logged_and_dropped:
  assumes sock: "map_of (socks s) w = Some k"
    and s': "s' = step s (Message w Unparsable now)"
  shows "s' = console_error (ErrProcessing (clientId k) SyntaxError) (touch w now s)
       \<and> errors s' = errors s @ [ErrProcessing (clientId k) SyntaxError]
       \<and> trace s' = trace s
       \<and> drawingHistory s' = drawingHistory s
       \<and> socks s' = socks s
       \<and> wss_clients s' = wss_clients s
       \<and> map fst (clients s') = map fst (clients s)
       \<and> readyState_of s' w = readyState_of s w"
proof -
  have eq: "s' = console_error (ErrProcessing (clientId k) SyntaxError) (touch w now s)"
    using sock by (simp add: s' on_message_def try_block_def Let_def)
  show ?thesis
    by (simp add: eq)
qed


text \<open>With A, B and C live and A sending a frame that does not parse.\<close>

theorem unparsable_message_logged_and_dropped_witness:
  "errors (step three_live (Message 0 Unparsable 4000)) = [ErrProcessing ''A'' SyntaxError]
   \<and> trace (step three_live (Message 0 Unparsable 4000)) = trace three_live
   \<and> drawingHistory (step three_live (Message 0 Unparsable 4000)) = []
   \<and> readyState_of (step three_live (Message 0 Unparsable 4000)) 0 = OPEN
   \<and> map fst (clients (step three_live (Message 0 Unparsable 4000))) = [0, 1, 2]"
proof -
  let ?s' = "step three_live (Message 0 Unparsable 4000)"
  note t = unparsable_message_logged_and_dropped [OF three_live_sock0 refl, of 4000,
      unfolded socket.select_convs]
  from t have "errors ?s' = errors three_live @ [ErrProcessing ''A'' SyntaxError]"
    by (elim conjE)
  moreover from t have "trace ?s' = trace three_live"
    by (elim conjE)
  moreover from t have "drawingHistory ?s' = drawingHistory three_live"
    by (elim conjE)
  moreover from t have "readyState_of ?s' 0 = readyState_of three_live 0"
    by (elim conjE)
  moreover from t have "map fst (clients ?s') = map fst (clients three_live)"
    by (elim conjE)
  moreover have "errors three_live = []" "drawingHistory three_live = []"
    "readyState_of three_live 0 = OPEN" "map fst (clients three_live) = [0, 1, 2]"
    by (simp_all add: three_live_eval readyState_of_def)
  ultimately show ?thesis
    by simp
qed


subsection \<open>The snapshot sent on accept\<close>

text \<open>
  Claim C5. The \<^verbatim>\<open>connection\<close> handler sends to the new socket, first of all, an
  \<^verbatim>\<open>INIT\<close> frame whose payload is \<^verbatim>\<open>drawingHistory\<close> as it is at that moment, in
  order. The frame is serialised when it is sent: whatever is processed afterwards,
  a \<^verbatim>\<open>DRAW\<close> of the new connection included, the frame at that position of the trace
  stays the same.
\<close>

theorem init_snapshot_on_accept:
  assumes s': "s' = step s (Connection uuid addr now)"
    and w: "w = next_ws s"
  shows "trace s' = trace s @ [Send w (INIT (drawingHistory s)),
                                 Send w (SYSTEM ''Connected to whiteboard server'')]
                    @ map (\<lambda>c. Send c (SYSTEM ''A new user has joined the whiteboard''))
                        (filter (\<lambda>c. c \<noteq> w \<and> readyState_of s c = OPEN) (wss_clients s))
       \<and> readyState_of s' w = OPEN
       \<and> w \<in> set (wss_clients s')
       \<and> map_of (clients s') w
           = Some \<lparr>id_info = uuid, ip = addr, connectedAt = now, lastActivity = now,
                   lastPong = None\<rparr>
       \<and> (\<forall>evs. prefix (trace s @ [Send w (INIT (drawingHistory s))]) (trace (run s' evs)))
       \<and> (\<forall>evs. trace (run s' evs) ! length (trace s) = Send w (INIT (drawingHistory s)))"
proof -
  have tr: "trace s' = trace s @ [Send w (INIT (drawingHistory s)),
                                 Send w (SYSTEM ''Connected to whiteboard server'')]
                    @ map (\<lambda>c. Send c (SYSTEM ''A new user has joined the whiteboard''))
                        (filter (\<lambda>c. c \<noteq> w \<and> readyState_of s c = OPEN) (wss_clients s))"
    by (simp add: s' w on_connection_trace)
  have p0: "prefix (trace s @ [Send w (INIT (drawingHistory s))]) (trace s')"
    by (simp add: tr)
  have p: "prefix (trace s @ [Send w (INIT (drawingHistory s))]) (trace (run s' evs))" for evs
    using p0 run_prefix [of s' evs] by (rule prefix_order.trans)
  have n: "trace (run s' evs) ! length (trace s) = Send w (INIT (drawingHistory s))" for evs
  proof -
    from p [of evs] obtain t where "trace (run s' evs) = (trace s @ [Send w (INIT (drawingHistory s))]) @ t"
      by (auto simp add: prefix_def)
    then show ?thesis by (simp add: nth_append)
  qed
  have o: "readyState_of s' w = OPEN"
    by (simp add: s' w readyState_of_def AList.update_conv)
  have r: "map_of (clients s') w
           = Some \<lparr>id_info = uuid, ip = addr, connectedAt = now, lastActivity = now,
                   lastPong = None\<rparr>"
    by (simp add: s' w AList.update_conv)
  show ?thesis
    using tr p n o r by (simp add: s' w)
qed


text \<open>
  After A has drawn once, B connects and then draws: what B was sent on accept is still
  the one action of A.
\<close>

theorem init_snapshot_on_accept_witness:
  "trace (run (step one_drawn (Connection ''B'' ''10.0.0.2'' 3000))
       [Message 1 (Parsed (JObj [(''type'', JStr ''DRAW''), (''data'', JObj [(''x'', JNum 2)])])) 4000])
     ! length (trace one_drawn)
   = Send 1 (INIT [[(''x'', JNum 1), (''clientId'', JStr ''A''), (''timestamp'', JNum 2000)]])"
proof -
  let ?evs = "[Message 1 (Parsed (JObj [(''type'', JStr ''DRAW''), (''data'', JObj [(''x'', JNum 2)])])) 4000]"
  let ?s' = "step one_drawn (Connection ''B'' ''10.0.0.2'' 3000)"
  note t = init_snapshot_on_accept [OF refl refl, of one_drawn "''B''" "''10.0.0.2''" 3000]
  from t have "\<forall>evs. trace (run ?s' evs) ! length (trace one_drawn)
                 = Send (next_ws one_drawn) (INIT (drawingHistory one_drawn))"
    by (elim conjE)
  then have "trace (run ?s' ?evs) ! length (trace one_drawn)
                 = Send (next_ws one_drawn) (INIT (drawingHistory one_drawn))"
    by (rule spec)
  then show ?thesis
    by (simp only: one_drawn_eval)
qed


subsection \<open>Activity stamps and the cleanup pass\<close>

text \<open>
  Claim C10. The \<^verbatim>\<open>message\<close> handler of a registered socket stamps the entry of the
  registry with the current time before it parses: the parse and the dispatch run on
  the stamped state, and the stamp stays when they throw. This holds for every frame,
  whether it parses or not and whatever its type; a cleanup pass at most 300000 ms later
  keeps the entry.
\<close>

theorem any_message_resets_inactivity_clock:
  assumes sock: "map_of (socks s) w = Some k"
    and reg: "map_of (clients s) w = Some i"
    and dist: "distinct (map fst (clients s))"
    and s': "s' = step s (Message w p now)"
  shows "s' = (case try_block k w p now (touch w now s) of
                 Inr s2 \<Rightarrow> s2
               | Inl e \<Rightarrow> console_error (ErrProcessing (clientId k) e) (touch w now s))
       \<and> map_of (clients s') w = Some (i\<lparr>lastActivity := now\<rparr>)
       \<and> (\<forall>now'. now' - now \<le> 5 * 60 * 1000 \<longrightarrow>
             map_of (clients (step s' (Sweep now'))) w = Some (i\<lparr>lastActivity := now\<rparr>))"
proof -
  have c: "clients s' = clients (touch w now s)"
    using on_message_clients [OF sock] by (simp add: s')
  have d: "distinct (map fst (clients s'))"
    using dist by (simp add: c)
  have l: "map_of (clients s') w = Some (i\<lparr>lastActivity := now\<rparr>)"
    using reg by (simp add: c touch_lookup)
  have "map_of (clients (sweep now' s')) w = Some (i\<lparr>lastActivity := now\<rparr>)"
    if "now' - now \<le> 5 * 60 * 1000" for now'
    using that by (simp add: sweep_lookup [OF d l] stale_def)
  then show ?thesis
    using l sock by (simp add: s' on_message_def Let_def)
qed


text \<open>
  A sends a frame that does not parse at time 400000; the cleanup pass at 700000 keeps A,
  stamped 400000.
\<close>

theorem any_message_resets_inactivity_clock_witness:
  "map_of (clients (step (step three_live (Message 0 Unparsable 400000)) (Sweep 700000))) 0
   = Some \<lparr>id_info = ''A'', ip = ''10.0.0.1'', connectedAt = 1000, lastActivity = 400000,
           lastPong = None\<rparr>"
proof -
  let ?s' = "step three_live (Message 0 Unparsable 400000)"
  let ?i = "\<lparr>id_info = ''A'', ip = ''10.0.0.1'', connectedAt = 1000, lastActivity = 1000,
             lastPong = None\<rparr>"
  note t = any_message_resets_inactivity_clock
    [OF three_live_sock0 three_live_regs(1) three_live_regs(3) refl, of Unparsable 400000]
  from t have "\<forall>now'. now' - 400000 \<le> 5 * 60 * 1000 \<longrightarrow>
      map_of (clients (step ?s' (Sweep now'))) 0 = Some (?i\<lparr>lastActivity := 400000\<rparr>)"
    by (elim conjE)
  then have "700000 - 400000 \<le> (5 * 60 * 1000 :: int) \<longrightarrow>
      map_of (clients (step ?s' (Sweep 700000))) 0 = Some (?i\<lparr>lastActivity := 400000\<rparr>)"
    by (rule spec)
  then have "map_of (clients (step ?s' (Sweep 700000))) 0 = Some (?i\<lparr>lastActivity := 400000\<rparr>)"
    by simp
  then show ?thesis
    by simp
qed


text \<open>
  Claim C7. One cleanup pass at time \<open>now\<close>, for a registered socket \<open>w\<close> with stamp
  \<open>lastActivity i\<close>. If the stamp is more than 300000 ms old, the pass deletes the entry,
  calls \<^verbatim>\<open>terminate\<close> unless the socket is already closed, and leaves the socket not
  open; whatever is processed afterwards, \<open>w\<close> has no entry and is sent nothing more.
  Otherwise the pass leaves the entry and the socket as they are.
\<close>

theorem sweep_evicts_idle_connections:
  assumes dist: "distinct (map fst (clients s))"
    and reg: "map_of (clients s) w = Some i"
    and alloc: "w < next_ws s"
    and s': "s' = step s (Sweep now)"
  shows "(now - lastActivity i > 5 * 60 * 1000 \<longrightarrow>
            map_of (clients s') w = None
          \<and> readyState_of s' w \<noteq> OPEN
          \<and> (readyState_of s w \<noteq> CLOSED \<longrightarrow>
               Terminate w \<in> set (drop (length (trace s)) (trace s')))
          \<and> (\<forall>evs. map_of (clients (run s' evs)) w = None
                 \<and> msgs_to w (trace (run s' evs)) = msgs_to w (trace s)))
       \<and> (now - lastActivity i \<le> 5 * 60 * 1000 \<longrightarrow>
            map_of (clients s') w = Some i
          \<and> readyState_of s' w = readyState_of s w
          \<and> Terminate w \<notin> set (drop (length (trace s)) (trace s')))"
proof -
  have in_set: "(w, i) \<in> set (clients s)"
    using reg by (rule map_of_SomeD)
  have key: "w \<in> fst ` set (filter (stale now) (clients s)) \<longleftrightarrow> stale now (w, i)"
    using stale_key_iff [OF dist in_set, of now] by simp
  have st: "stale now (w, i) \<longleftrightarrow> now - lastActivity i > 5 * 60 * 1000"
    by (simp add: stale_def)
  have look: "map_of (clients s') w = (if stale now (w, i) then None else Some i)"
    by (simp add: s' sweep_lookup [OF dist reg])
  have rs: "readyState_of s' w
            = (if stale now (w, i) \<and> readyState_of s w \<noteq> CLOSED then CLOSING
               else readyState_of s w)"
    by (simp only: s' step.simps sweep_readyState_of key)
  have tr: "drop (length (trace s)) (trace s')
            = map Terminate (filter (\<lambda>c. readyState_of s c \<noteq> CLOSED)
                               (map fst (filter (stale now) (clients s))))"
    by (simp add: s' sweep_trace)
  have tm: "Terminate w \<in> set (drop (length (trace s)) (trace s'))
              \<longleftrightarrow> stale now (w, i) \<and> readyState_of s w \<noteq> CLOSED"
    using key by (auto simp add: tr)
  have later: "map_of (clients (run s' evs)) w = None
               \<and> msgs_to w (trace (run s' evs)) = msgs_to w (trace s)"
    if "stale now (w, i)" for evs
  proof -
    have "evicted w (msgs_to w (trace s)) s'"
      using that alloc look rs by (auto simp add: evicted_def s' sweep_trace)
    then have "evicted w (msgs_to w (trace s)) (run s' evs)"
      by (rule evicted_run)
    then show ?thesis
      by (simp add: evicted_def)
  qed
  show ?thesis
    using look rs tm later by (auto simp add: st)
qed


text \<open>
  A, B and C were last active at 1000, 2000 and 3000. The pass at 302500 evicts A (and B)
  and keeps C; a later chat of C does not reach A.
\<close>

theorem sweep_evicts_idle_connections_witness:
  "map_of (clients (step three_live (Sweep 302500))) 0 = None
   \<and> readyState_of (step three_live (Sweep 302500)) 0 \<noteq> OPEN
   \<and> Terminate 0 \<in> set (drop (length (trace three_live)) (trace (step three_live (Sweep 302500))))
   \<and> msgs_to 0 (trace (run (step three_live (Sweep 302500))
        [Message 2 (Parsed (JObj [(''type'', JStr ''CHAT''), (''Name'', JStr ''Cy''),
                                  (''res'', JStr ''hello'')])) 303000]))
     = msgs_to 0 (trace three_live)
   \<and> map_of (clients (step three_live (Sweep 302500))) 2
     = Some \<lparr>id_info = ''C'', ip = ''10.0.0.3'', connectedAt = 3000, lastActivity = 3000,
             lastPong = None\<rparr>
   \<and> readyState_of (step three_live (Sweep 302500)) 2 = OPEN
   \<and> Terminate 2 \<notin> set (drop (length (trace three_live)) (trace (step three_live (Sweep 302500))))"
proof -
  let ?s' = "step three_live (Sweep 302500)"
  let ?evs = "[Message 2 (Parsed (JObj [(''type'', JStr ''CHAT''), (''Name'', JStr ''Cy''),
                                  (''res'', JStr ''hello'')])) 303000]"
  have a0: "(0::nat) < next_ws three_live" and a2: "2 < next_ws three_live"
    by (simp_all add: three_live_regs)
  have o: "readyState_of three_live 0 \<noteq> CLOSED" "readyState_of three_live 2 = OPEN"
    using three_live_live by (simp_all add: live_def)
  note t0 = sweep_evicts_idle_connections
    [OF three_live_regs(3) three_live_regs(1) a0 refl, of 302500, unfolded client_info.select_convs]
  note t2 = sweep_evicts_idle_connections
    [OF three_live_regs(3) three_live_regs(2) a2 refl, of 302500, unfolded client_info.select_convs]
  have old: "(302500::int) - 1000 > 5 * 60 * 1000" and recent: "(302500::int) - 3000 \<le> 5 * 60 * 1000"
    by simp_all
  from t0 old have e: "map_of (clients ?s') 0 = None
          \<and> readyState_of ?s' 0 \<noteq> OPEN
          \<and> (readyState_of three_live 0 \<noteq> CLOSED \<longrightarrow>
               Terminate 0 \<in> set (drop (length (trace three_live)) (trace ?s')))
          \<and> (\<forall>evs. map_of (clients (run ?s' evs)) 0 = None
                 \<and> msgs_to 0 (trace (run ?s' evs)) = msgs_to 0 (trace three_live))"
    by blast
  from t2 recent have k: "map_of (clients ?s') 2
            = Some \<lparr>id_info = ''C'', ip = ''10.0.0.3'', connectedAt = 3000, lastActivity = 3000,
                    lastPong = None\<rparr>
          \<and> readyState_of ?s' 2 = readyState_of three_live 2
          \<and> Terminate 2 \<notin> set (drop (length (trace three_live)) (trace ?s'))"
    by blast
  from e have "msgs_to 0 (trace (run ?s' ?evs)) = msgs_to 0 (trace three_live)"
    by blast
  with e k o show ?thesis
    by simp
qed


subsection \<open>Shutdown\<close>

text \<open>
  Claim C8. \<^verbatim>\<open>shutdown()\<close> sends the notice to every open member of \<^verbatim>\<open>wss.clients\<close>
  and closes it with code 1000 right after, in the order of the set; each of them
  receives the notice once and is left closing. Then the server is asked to close and the
  timer of 5000 ms is set. From then on, as long as the process has not exited, the
  callback of \<^verbatim>\<open>server.close\<close> exits with code 0 and the timer exits with code 1; after
  the exit nothing runs.
\<close>

theorem shutdown_notifies_closes_and_exits:
  assumes dist: "distinct (wss_clients s)"
    and s1: "s1 = step s Shutdown"
  shows "trace s1
         = trace s @ concat (map (\<lambda>c. [Send c shutdown_notice, CloseWs c 1000 ''Server shutdown''])
                               (filter (\<lambda>c. readyState_of s c = OPEN) (wss_clients s)))
           @ [ServerClose, SetTimeout 5000]
       \<and> (\<forall>c. msgs_to c (drop (length (trace s)) (trace s1))
                = (if live s c then [shutdown_notice] else []))
       \<and> (\<forall>c. live s c \<longrightarrow> readyState_of s1 c = CLOSING)
       \<and> (\<forall>evs. exit_code (run s1 evs) = None \<longrightarrow>
                 exit_code (step (run s1 evs) ServerClosed) = Some 0
               \<and> exit_code (step (run s1 evs) ForceTimeout) = Some 1)
       \<and> (\<forall>evs evs'. exit_code (run s1 evs) \<noteq> None \<longrightarrow> run (run s1 evs) evs' = run s1 evs)"
proof -
  have tr: "trace s1
         = trace s @ concat (map (\<lambda>c. [Send c shutdown_notice, CloseWs c 1000 ''Server shutdown''])
                               (filter (\<lambda>c. readyState_of s c = OPEN) (wss_clients s)))
           @ [ServerClose, SetTimeout 5000]"
    using dist by (simp add: s1 shutdown_trace)
  have d: "distinct (filter (\<lambda>c. readyState_of s c = OPEN) (wss_clients s))"
    using dist by simp
  have m: "msgs_to c (drop (length (trace s)) (trace s1))
           = (if live s c then [shutdown_notice] else [])" for c
    by (simp add: tr msgs_to_notices [OF d] live_def)
  have r: "live s c \<Longrightarrow> readyState_of s1 c = CLOSING" for c
    by (simp add: s1 shutdown_readyState_of)
  have f: "closing (run s1 evs)" "force_timer (run s1 evs)" for evs
    by (simp_all add: s1 run_closing run_force_timer)
  have x: "exit_code (step (run s1 evs) ServerClosed) = Some 0
         \<and> exit_code (step (run s1 evs) ForceTimeout) = Some 1" for evs
    using f [of evs] by simp
  show ?thesis
    using tr m r x run_exited by blast
qed


text \<open>With A, B and C live.\<close>

theorem shutdown_notifies_closes_and_exits_witness:
  "msgs_to 0 (drop (length (trace three_live)) (trace (step three_live Shutdown))) = [shutdown_notice]
   \<and> msgs_to 1 (drop (length (trace three_live)) (trace (step three_live Shutdown))) = [shutdown_notice]
   \<and> msgs_to 2 (drop (length (trace three_live)) (trace (step three_live Shutdown))) = [shutdown_notice]
   \<and> drop (length (trace three_live)) (trace (step three_live Shutdown))
     = [Send 0 shutdown_notice, CloseWs 0 1000 ''Server shutdown'',
        Send 1 shutdown_notice, CloseWs 1 1000 ''Server shutdown'',
        Send 2 shutdown_notice, CloseWs 2 1000 ''Server shutdown'',
        ServerClose, SetTimeout 5000]
   \<and> readyState_of (step three_live Shutdown) 1 = CLOSING
   \<and> exit_code (step (run (step three_live Shutdown) [Close 0]) ServerClosed) = Some 0
   \<and> exit_code (step (run (step three_live Shutdown) [Close 0]) ForceTimeout) = Some 1"
proof -
  let ?s1 = "step three_live Shutdown"
  let ?new = "drop (length (trace three_live)) (trace ?s1)"
  note t = shutdown_notifies_closes_and_exits [OF three_live_distinct refl]
  from t have m: "\<forall>c. msgs_to c ?new = (if live three_live c then [shutdown_notice] else [])"
    by (elim conjE)
  from t have r: "\<forall>c. live three_live c \<longrightarrow> readyState_of ?s1 c = CLOSING"
    by (elim conjE)
  from t have x: "\<forall>evs. exit_code (run ?s1 evs) = None \<longrightarrow>
                 exit_code (step (run ?s1 evs) ServerClosed) = Some 0
               \<and> exit_code (step (run ?s1 evs) ForceTimeout) = Some 1"
    by (elim conjE)
  from t have "trace ?s1 = trace three_live
      @ concat (map (\<lambda>c. [Send c shutdown_notice, CloseWs c 1000 ''Server shutdown''])
                  (filter (\<lambda>c. readyState_of three_live c = OPEN) (wss_clients three_live)))
      @ [ServerClose, SetTimeout 5000]"
    by (elim conjE)
  moreover have "filter (\<lambda>c. readyState_of three_live c = OPEN) (wss_clients three_live) = [0, 1, 2]"
    by (simp add: three_live_eval readyState_of_def)
  ultimately have n: "?new = [Send 0 shutdown_notice, CloseWs 0 1000 ''Server shutdown'',
        Send 1 shutdown_notice, CloseWs 1 1000 ''Server shutdown'',
        Send 2 shutdown_notice, CloseWs 2 1000 ''Server shutdown'',
        ServerClose, SetTimeout 5000]"
    by simp
  have "exit_code (run ?s1 [Close 0]) = None"
    by (simp add: three_live_regs)
  with x have "exit_code (step (run ?s1 [Close 0]) ServerClosed) = Some 0
               \<and> exit_code (step (run ?s1 [Close 0]) ForceTimeout) = Some 1"
    by blast
  moreover have "msgs_to 0 ?new = [shutdown_notice]" "msgs_to 1 ?new = [shutdown_notice]"
    "msgs_to 2 ?new = [shutdown_notice]" "readyState_of ?s1 1 = CLOSING"
    using m r three_live_live by simp_all
  ultimately show ?thesis
    using n by (intro conjI) simp_all
qed

end
